theory Spec2Isabelle
  imports Main
begin

section \<open>Exceptions\<close>

text \<open>
  The exception classes the code distinguishes. \<open>ValueError\<close>, \<open>OSError\<close>,
  \<open>OverflowError\<close> and \<open>Exception\<close> (any other subclass, with its message) are
  instances of Python's \<open>Exception\<close>; \<open>KeyboardInterrupt\<close> and \<open>SystemExit\<close> derive from
  \<open>BaseException\<close> only, so an \<open>except Exception\<close> clause lets them through.
\<close>

datatype exn =
  ValueError | OSError | OverflowError | Exception string | KeyboardInterrupt | SystemExit

fun is_Exception :: "exn \<Rightarrow> bool" where
  "is_Exception KeyboardInterrupt = False"
| "is_Exception SystemExit = False"
| "is_Exception _ = True"

section \<open>Python strings and conversions\<close>

text \<open>
  A string is a list of characters; a character stands for a code point below 256.
  \<open>is_space\<close> is \<open>str.isspace\<close> on that range, \<open>py_strip\<close> is
  \<open>str.strip()\<close> and \<open>split_on c\<close> is \<open>str.split(c)\<close> for a separator of
  one character: it returns at least one piece, and the pieces joined by the separator
  give the string back.
\<close>

definition is_space :: "char \<Rightarrow> bool" where
  "is_space c =
     (c \<in> set [CHR 0x09, CHR 0x0A, CHR 0x0B, CHR 0x0C, CHR 0x0D, CHR 0x1C, CHR 0x1D,
               CHR 0x1E, CHR 0x1F, CHR 0x20, CHR 0x85, CHR 0xA0])"

definition py_strip :: "string \<Rightarrow> string" where
  "py_strip s = rev (dropWhile is_space (rev (dropWhile is_space s)))"

fun split_on :: "char \<Rightarrow> string \<Rightarrow> string list" where
  "split_on c [] = [[]]"
| "split_on c (x # xs) =
     (if x = c then [] # split_on c xs
      else (case split_on c xs of
              [] \<Rightarrow> [[x]]
            | piece # pieces \<Rightarrow> (x # piece) # pieces))"

text \<open>
  \<open>int(s)\<close> for a string: surrounding whitespace is dropped, then an optional sign
  and decimal digits, where single underscores may separate digits. The number of
  digits, not counting the sign and the underscores, is limited: beyond
  \<open>int_max_str_digits\<close>, the default of \<open>sys.int_max_str_digits\<close>, the conversion
  is refused. \<open>None\<close> stands for the \<open>ValueError\<close> that \<open>int\<close> raises on
  anything else.
\<close>

definition int_max_str_digits :: nat where
  "int_max_str_digits = 4300"

definition is_digit :: "char \<Rightarrow> bool" where
  "is_digit c = (c \<in> set ''0123456789'')"

definition digitpart :: "string \<Rightarrow> bool" where
  "digitpart s = list_all (\<lambda>g. g \<noteq> [] \<and> list_all is_digit g) (split_on CHR ''_'' s)"

definition digit_value :: "char \<Rightarrow> int" where
  "digit_value c = int (length (takeWhile (\<lambda>d. d \<noteq> c) ''0123456789''))"

definition decimal :: "string \<Rightarrow> int" where
  "decimal s = foldl (\<lambda>n c. 10 * n + digit_value c) 0 (filter is_digit s)"

definition unsigned :: "string \<Rightarrow> string" where
  "unsigned s =
     (case s of
        [] \<Rightarrow> []
      | c # r \<Rightarrow> if c = CHR ''-'' \<or> c = CHR ''+'' then r else s)"

definition py_int :: "string \<Rightarrow> int option" where
  "py_int s =
     (let t = py_strip s in
      if digitpart (unsigned t) \<and> length (filter is_digit (unsigned t)) \<le> int_max_str_digits
      then Some (if take 1 t = ''-'' then - decimal (unsigned t) else decimal (unsigned t))
      else None)"

text \<open>
  \<open>float(s)\<close>: which strings convert is modelled (the grammar of the language
  reference: a decimal number with optional fraction and exponent, or \<open>inf\<close>,
  \<open>infinity\<close>, \<open>nan\<close> in any case, with an optional sign); the binary floating
  point value is not computed, a float is kept as the text it was converted from.
  \<open>PyInt\<close> is there for the integer \<open>0\<close> that the collector stores for an empty
  fan speed.
\<close>

datatype pynum = PyInt int | PyFloat string

definition lower :: "char \<Rightarrow> char" where
  "lower c =
     (case map_of (zip ''ABCDEFGHIJKLMNOPQRSTUVWXYZ'' ''abcdefghijklmnopqrstuvwxyz'') c of
        None \<Rightarrow> c
      | Some l \<Rightarrow> l)"

definition pointfloat :: "string \<Rightarrow> bool" where
  "pointfloat s =
     (case split_on CHR ''.'' s of
        [a] \<Rightarrow> digitpart a
      | [a, b] \<Rightarrow> (a = [] \<and> digitpart b) \<or> (digitpart a \<and> (b = [] \<or> digitpart b))
      | _ \<Rightarrow> False)"

definition floatnumber :: "string \<Rightarrow> bool" where
  "floatnumber s =
     (let mantissa = takeWhile (\<lambda>c. lower c \<noteq> CHR ''e'') s;
          rest = dropWhile (\<lambda>c. lower c \<noteq> CHR ''e'') s
      in pointfloat mantissa \<and> (rest = [] \<or> digitpart (unsigned (tl rest))))"

definition py_float :: "string \<Rightarrow> pynum option" where
  "py_float s =
     (let t = py_strip s; u = unsigned t in
      if map lower u \<in> set [''inf'', ''infinity'', ''nan''] \<or> floatnumber u
      then Some (PyFloat t)
      else None)"

text \<open>
  \<open>str(i)\<close> for an integer, as an f-string formats it. The same limit on the
  number of digits applies to this conversion in Python; it is not modelled here, so
  \<open>py_str\<close> is \<open>str\<close> for the integers of at most \<open>int_max_str_digits\<close> digits,
  which are all that \<open>py_int\<close> returns.
\<close>

fun digits :: "nat \<Rightarrow> string" where
  "digits n =
     (if n < 10 then [''0123456789'' ! n]
      else digits (n div 10) @ [''0123456789'' ! (n mod 10)])"

declare digits.simps [simp del]

definition py_str :: "int \<Rightarrow> string" where
  "py_str i = (if i < 0 then CHR ''-'' # digits (nat (- i)) else digits (nat i))"

section \<open>The SSH client (ssh_client.py)\<close>

text \<open>
  Of the fields of \<open>SSHClient\<close> only \<open>client\<close> changes: it is \<open>None\<close> or a
  \<open>paramiko.SSHClient\<close> object. What that object and the network do is the
  environment of a call, given as a \<open>response\<close>: what \<open>get_transport()\<close> reports
  for the session held (\<open>None\<close>, or a transport and its \<open>is_active()\<close>), whether
  connecting succeeds, and what running the command does: it raises (with the message
  \<open>str(e)\<close>), or it gives the decoded output, the decoded error output and the exit
  status. Each call also returns the list of the remote operations it attempted.
\<close>

record ssh_client =
  client :: "unit option"

datatype exec_result = ExecRaises string | ExecReturns string string int

record response =
  transport :: "bool option"
  connects :: bool
  exec :: exec_result

datatype ssh_event = EConnect | EExec string | EClose

text \<open>
  \<open>connect\<close> stores a new session object in \<open>client\<close> before it tries to connect,
  so the field is set also when it returns \<open>False\<close>.
\<close>

definition connect :: "response \<Rightarrow> ssh_client \<Rightarrow> bool \<times> ssh_client \<times> ssh_event list" where
  "connect r c = (connects r, c\<lparr>client := Some ()\<rparr>, [EConnect])"

definition exec_command ::
  "string \<Rightarrow> response \<Rightarrow> ssh_client \<Rightarrow> ssh_event list
    \<Rightarrow> (bool \<times> string \<times> string) \<times> ssh_client \<times> ssh_event list" where
  "exec_command command r c evs =
     (case exec r of
        ExecRaises msg \<Rightarrow> ((False, [], msg), c, evs @ [EExec command])
      | ExecReturns out err exit_code \<Rightarrow>
          (if exit_code \<noteq> 0
           then ((False, py_strip out, py_strip err), c, evs @ [EExec command])
           else ((True, py_strip out, py_strip err), c, evs @ [EExec command])))"

definition execute_command ::
  "string \<Rightarrow> response \<Rightarrow> ssh_client
    \<Rightarrow> (bool \<times> string \<times> string) \<times> ssh_client \<times> ssh_event list" where
  "execute_command command r c =
     (if client c = None \<or> transport r = None \<or> transport r = Some False
      then (case connect r c of
              (connected, c1, evs) \<Rightarrow>
                if \<not> connected then ((False, [], ''Unable to connect to server''), c1, evs)
                else exec_command command r c1 evs)
      else exec_command command r c [])"

definition ssh_disconnect :: "ssh_client \<Rightarrow> ssh_client \<times> ssh_event list" where
  "ssh_disconnect c =
     (if client c \<noteq> None then (c\<lparr>client := None\<rparr>, [EClose]) else (c, []))"

section \<open>Collecting and parsing (data_collector.py, collect_gpu_stats)\<close>

definition NVIDIA_SMI_CMD :: string where
  "NVIDIA_SMI_CMD = ''nvidia-smi --query-gpu=index,name,utilization.gpu,utilization.memory,memory.total,memory.used,memory.free,temperature.gpu,power.draw,power.limit,fan.speed --format=csv,noheader,nounits''"

definition NVIDIA_SMI_PROCESS_CMD :: string where
  "NVIDIA_SMI_PROCESS_CMD = ''nvidia-smi --query-compute-apps=pid,process_name,gpu_uuid,used_memory --format=csv,noheader,nounits''"

definition NVIDIA_SMI_UUID_CMD :: string where
  "NVIDIA_SMI_UUID_CMD = ''nvidia-smi --query-gpu=index,uuid --format=csv,noheader,nounits''"

text \<open>
  The dictionaries the collector builds, as records: a process, a GPU, and the
  snapshot of one collection. In a snapshot \<open>server\<close> is optional, since
  \<open>store_data\<close> looks it up with \<open>data.get\<close> and tests it; the collector always
  sets it. Of the server configuration the collector reads \<open>name\<close> and \<open>host\<close>
  after construction.
\<close>

record process =
  pid :: int
  process_name :: string
  used_memory :: pynum

record gpu =
  index :: int
  name :: string
  uuid :: string
  utilization_gpu :: pynum
  utilization_memory :: pynum
  memory_total :: pynum
  memory_used :: pynum
  memory_free :: pynum
  temperature :: pynum
  power_draw :: pynum
  power_limit :: pynum
  fan_speed :: pynum
  processes :: "process list"

record snapshot =
  timestamp :: string
  server :: "string option"
  host :: string
  gpus :: "gpu list"

record server_config =
  config_name :: string
  config_host :: string

text \<open>\<open>[p.strip() for p in line.split(",")]\<close> and the lines of a command's output.\<close>

definition split_fields :: "string \<Rightarrow> string list" where
  "split_fields line = map py_strip (split_on CHR '','' line)"

definition lines_of :: "string \<Rightarrow> string list" where
  "lines_of output = split_on CHR 0x0A (py_strip output)"

text \<open>
  The loop over the UUID table. Unpacking \<open>idx, uuid = parts\<close> raises
  \<open>ValueError\<close> unless there are exactly two parts.
\<close>

fun parse_uuid_lines :: "string list \<Rightarrow> (string \<rightharpoonup> string) \<Rightarrow> exn + (string \<rightharpoonup> string)" where
  "parse_uuid_lines [] uuid_map = Inr uuid_map"
| "parse_uuid_lines (line # rest) uuid_map =
     (if py_strip line \<noteq> [] then
        (let parts = split_fields line in
         if length parts \<ge> 2 then
           (if length parts = 2
            then parse_uuid_lines rest (uuid_map(parts ! 0 \<mapsto> parts ! 1))
            else Inl ValueError)
         else parse_uuid_lines rest uuid_map)
      else parse_uuid_lines rest uuid_map)"

text \<open>
  The body of the loop over the GPU table, for the parts of one line: the unpacking
  into eleven names, then the dictionary with its conversions. Each of them raises
  \<open>ValueError\<close> when it fails.
\<close>

definition gpu_of_parts :: "(string \<rightharpoonup> string) \<Rightarrow> string list \<Rightarrow> exn + gpu" where
  "gpu_of_parts uuid_map parts =
     (if length parts \<noteq> 11 then Inl ValueError
      else
        (let idx = parts ! 0; fan = parts ! 10 in
         case (py_int idx,
               those (map py_float (take 8 (drop 2 parts))),
               (if fan \<noteq> [] then py_float fan else Some (PyInt 0))) of
           (Some i, Some [util_gpu, util_mem, mem_total, mem_used, mem_free, temp,
                          power_draw', power_limit'], Some fan') \<Rightarrow>
             Inr \<lparr> index = i,
                   name = parts ! 1,
                   uuid = (case uuid_map idx of None \<Rightarrow> ''unknown'' | Some u \<Rightarrow> u),
                   utilization_gpu = util_gpu,
                   utilization_memory = util_mem,
                   memory_total = mem_total,
                   memory_used = mem_used,
                   memory_free = mem_free,
                   temperature = temp,
                   power_draw = power_draw',
                   power_limit = power_limit',
                   fan_speed = fan',
                   processes = [] \<rparr>
         | _ \<Rightarrow> Inl ValueError))"

fun parse_gpu_lines :: "(string \<rightharpoonup> string) \<Rightarrow> string list \<Rightarrow> gpu list \<Rightarrow> exn + gpu list" where
  "parse_gpu_lines uuid_map [] gpu_list = Inr gpu_list"
| "parse_gpu_lines uuid_map (line # rest) gpu_list =
     (if py_strip line \<noteq> [] then
        (let parts = split_fields line in
         if length parts \<ge> 11 then
           (case gpu_of_parts uuid_map parts of
              Inl e \<Rightarrow> Inl e
            | Inr gpu_data \<Rightarrow> parse_gpu_lines uuid_map rest (gpu_list @ [gpu_data]))
         else parse_gpu_lines uuid_map rest gpu_list)
      else parse_gpu_lines uuid_map rest gpu_list)"

text \<open>
  The process table: the unpacking into four names and the two conversions, then the
  inner loop, which appends the process to the first GPU with the UUID and stops.
\<close>

definition process_of_parts :: "string list \<Rightarrow> exn + process \<times> string" where
  "process_of_parts parts =
     (if length parts \<noteq> 4 then Inl ValueError
      else
        (case (py_int (parts ! 0), py_float (parts ! 3)) of
           (Some p, Some m) \<Rightarrow>
             Inr (\<lparr> pid = p, process_name = parts ! 1, used_memory = m \<rparr>, parts ! 2)
         | _ \<Rightarrow> Inl ValueError))"

fun add_process :: "process \<Rightarrow> string \<Rightarrow> gpu list \<Rightarrow> gpu list" where
  "add_process process_data gpu_uuid [] = []"
| "add_process process_data gpu_uuid (g # gs) =
     (if uuid g = gpu_uuid then g\<lparr>processes := processes g @ [process_data]\<rparr> # gs
      else g # add_process process_data gpu_uuid gs)"

fun parse_process_lines :: "string list \<Rightarrow> gpu list \<Rightarrow> exn + gpu list" where
  "parse_process_lines [] gpu_list = Inr gpu_list"
| "parse_process_lines (line # rest) gpu_list =
     (if py_strip line \<noteq> [] then
        (let parts = split_fields line in
         if length parts \<ge> 4 then
           (case process_of_parts parts of
              Inl e \<Rightarrow> Inl e
            | Inr (process_data, gpu_uuid) \<Rightarrow>
                parse_process_lines rest (add_process process_data gpu_uuid gpu_list))
         else parse_process_lines rest gpu_list)
      else parse_process_lines rest gpu_list)"

text \<open>
  The parsing half of \<open>collect_gpu_stats\<close>, from the three outputs: the UUID table,
  the GPU table, the process table, then the dictionary returned.
\<close>

definition parse_gpus :: "string \<Rightarrow> string \<Rightarrow> string \<Rightarrow> exn + gpu list" where
  "parse_gpus gpu_stats_output gpu_uuid_output process_output =
     (case parse_uuid_lines (lines_of gpu_uuid_output) Map.empty of
        Inl e \<Rightarrow> Inl e
      | Inr uuid_map \<Rightarrow>
          (case parse_gpu_lines uuid_map (lines_of gpu_stats_output) [] of
             Inl e \<Rightarrow> Inl e
           | Inr gpu_list \<Rightarrow> parse_process_lines (lines_of process_output) gpu_list))"

text \<open>
  \<open>collect_gpu_stats\<close>: the three commands in order, each with the response of the
  remote side to it; a command that does not succeed ends the collection with
  \<open>None\<close>. The timestamp is the reading of the clock.
\<close>

definition collect_gpu_stats ::
  "server_config \<Rightarrow> string \<Rightarrow> response \<Rightarrow> response \<Rightarrow> response \<Rightarrow> ssh_client
    \<Rightarrow> (exn + snapshot option) \<times> ssh_client \<times> ssh_event list" where
  "collect_gpu_stats cfg now r1 r2 r3 c =
     (case execute_command NVIDIA_SMI_CMD r1 c of
        ((success1, gpu_stats_output, _), c1, evs1) \<Rightarrow>
          if \<not> success1 then (Inr None, c1, evs1)
          else
            (case execute_command NVIDIA_SMI_UUID_CMD r2 c1 of
               ((success2, gpu_uuid_output, _), c2, evs2) \<Rightarrow>
                 if \<not> success2 then (Inr None, c2, evs1 @ evs2)
                 else
                   (case execute_command NVIDIA_SMI_PROCESS_CMD r3 c2 of
                      ((success3, process_output, _), c3, evs3) \<Rightarrow>
                        if \<not> success3 then (Inr None, c3, evs1 @ evs2 @ evs3)
                        else
                          (case parse_gpus gpu_stats_output gpu_uuid_output process_output of
                             Inl e \<Rightarrow> (Inl e, c3, evs1 @ evs2 @ evs3)
                           | Inr gs \<Rightarrow>
                               (Inr (Some \<lparr> timestamp = now,
                                             server = Some (config_name cfg),
                                             host = config_host cfg,
                                             gpus = gs \<rparr>),
                                c3, evs1 @ evs2 @ evs3)))))"

section \<open>Well-formed lines\<close>

text \<open>
  The lines on which the loops of \<open>collect_gpu_stats\<close> do not raise, by the number of
  their comma-separated split_fields and by what \<open>int\<close> and \<open>float\<close> accept: a line of
  the UUID table has at most two split_fields; a line of the GPU table has fewer than eleven
  split_fields, or exactly eleven of which the index, the eight measurements and a non-empty
  fan speed convert; a line of the process table has fewer than four split_fields, or
  exactly four of which the pid and the memory convert.
\<close>

definition numbers_convert :: "string list \<Rightarrow> bool" where
  "numbers_convert parts =
     (py_int (parts ! 0) \<noteq> None
      \<and> list_all (\<lambda>s. py_float s \<noteq> None) (take 8 (drop 2 parts))
      \<and> (parts ! 10 = [] \<or> py_float (parts ! 10) \<noteq> None))"

definition uuid_line_ok :: "string \<Rightarrow> bool" where
  "uuid_line_ok line = (length (split_fields line) \<le> 2)"

definition stats_line_ok :: "string \<Rightarrow> bool" where
  "stats_line_ok line =
     (length (split_fields line) < 11
      \<or> (length (split_fields line) = 11 \<and> numbers_convert (split_fields line)))"

definition process_line_ok :: "string \<Rightarrow> bool" where
  "process_line_ok line =
     (length (split_fields line) < 4
      \<or> (length (split_fields line) = 4 \<and> py_int (split_fields line ! 0) \<noteq> None
          \<and> py_float (split_fields line ! 3) \<noteq> None))"

text \<open>
  The record that the loop body builds from a line of the GPU table, and the process
  and the UUID it reads from a line of the process table, for lines that are turned
  into one.
\<close>

definition gpu_of_line :: "(string \<rightharpoonup> string) \<Rightarrow> string \<Rightarrow> gpu" where
  "gpu_of_line uuid_map line = projr (gpu_of_parts uuid_map (split_fields line))"

definition process_of_line :: "string \<Rightarrow> process" where
  "process_of_line line = fst (projr (process_of_parts (split_fields line)))"

definition uuid_of_line :: "string \<Rightarrow> string" where
  "uuid_of_line line = split_fields line ! 2"

definition gpu_row :: "string \<Rightarrow> bool" where
  "gpu_row line = (length (split_fields line) = 11)"

definition process_row_for :: "string \<Rightarrow> string \<Rightarrow> bool" where
  "process_row_for gpu_uuid line = (length (split_fields line) = 4 \<and> uuid_of_line line = gpu_uuid)"

section \<open>The collection loop (data_collector.py, start_collection)\<close>

text \<open>
  \<open>start_collection\<close> calls \<open>self.collect_gpu_stats()\<close>, the callback,
  \<open>time.sleep\<close> and \<open>self.ssh_client.disconnect()\<close>. The loop is modelled over
  an arbitrary world \<open>'w\<close> that these four calls read and change; each call returns
  its value or the exception it raises, with the world after it. The calls themselves
  are the fields of \<open>hooks\<close>, the callback is an optional argument as in the source.
  Logging is not modelled.
\<close>

record ('d, 'w) hooks =
  collect :: "'w \<Rightarrow> (exn + 'd option) \<times> 'w"
  sleep :: "int \<Rightarrow> 'w \<Rightarrow> (exn + unit) \<times> 'w"
  disconnect :: "'w \<Rightarrow> 'w"

type_synonym ('d, 'w) callback = "'d \<Rightarrow> 'w \<Rightarrow> (exn + bool) \<times> 'w"

text \<open>What the loop did, in order: the calls it made, with the outcome of each collection.\<close>

datatype outcome = Succeeded | Failed | Raised

datatype event = ECollect outcome | ECallback | ESleep int | EDisconnect

text \<open>
  How the loop was left: the \<open>break\<close> at \<open>retry_count >= max_retries\<close>, the
  \<open>except KeyboardInterrupt\<close> clause, the \<open>except Exception\<close> clause, or an
  exception neither clause catches, which leaves \<open>start_collection\<close> itself.
\<close>

datatype exit = GiveUp | Interrupted | Errored exn | Propagated exn

fun handler :: "exn \<Rightarrow> exit" where
  "handler KeyboardInterrupt = Interrupted"
| "handler e = (if is_Exception e then Errored e else Propagated e)"

text \<open>
  One pass through the body of \<open>while True\<close>, from the value of \<open>retry_count\<close>
  and the world: either the loop goes on (\<open>continue\<close>, or the end of the body after
  the sleep) or it is left. Both carry \<open>retry_count\<close>, the world and the events of
  this pass. A dictionary returned by \<open>collect_gpu_stats\<close> always has four keys, so
  \<open>if data\<close> holds exactly when the result is not \<open>None\<close>.
\<close>

datatype 'w step = Continue int 'w "event list" | Break exit int 'w "event list"

definition poll_cycle ::
  "('d, 'w) hooks \<Rightarrow> ('d, 'w) callback option \<Rightarrow> int \<Rightarrow> int \<Rightarrow> int \<Rightarrow> 'w \<Rightarrow> 'w step" where
  "poll_cycle H callback interval max_retries retry_count w =
     (case collect H w of
        (Inl e, w1) \<Rightarrow> Break (handler e) retry_count w1 [ECollect Raised]
      | (Inr None, w1) \<Rightarrow>
          (if retry_count + 1 \<ge> max_retries
           then Break GiveUp (retry_count + 1) w1 [ECollect Failed]
           else Continue (retry_count + 1) w1 [ECollect Failed])
      | (Inr (Some data), w1) \<Rightarrow>
          (case (case callback of
                   None \<Rightarrow> (Inr True, w1, [])
                 | Some cb \<Rightarrow> (case cb data w1 of (r, w2) \<Rightarrow> (r, w2, [ECallback]))) of
             (Inl e, w2, evs) \<Rightarrow> Break (handler e) 0 w2 (ECollect Succeeded # evs)
           | (Inr _, w2, evs) \<Rightarrow>
               (case sleep H interval w2 of
                  (Inl e, w3) \<Rightarrow>
                    Break (handler e) 0 w3 (ECollect Succeeded # evs @ [ESleep interval])
                | (Inr _, w3) \<Rightarrow>
                    Continue 0 w3 (ECollect Succeeded # evs @ [ESleep interval]))))"

text \<open>
  The \<open>while True\<close> loop, which may run forever: the first argument bounds the number
  of passes, and \<open>None\<close> says that the loop has not been left within that many.
  The result is the exit, the final \<open>retry_count\<close>, the world and all events.
\<close>

fun collection_loop ::
  "('d, 'w) hooks \<Rightarrow> ('d, 'w) callback option \<Rightarrow> int \<Rightarrow> int \<Rightarrow> nat \<Rightarrow> int \<Rightarrow> 'w
    \<Rightarrow> (exit \<times> int \<times> 'w \<times> event list) option" where
  "collection_loop H callback interval max_retries 0 retry_count w = None"
| "collection_loop H callback interval max_retries (Suc n) retry_count w =
     (case poll_cycle H callback interval max_retries retry_count w of
        Break x rc w' evs \<Rightarrow> Some (x, rc, w', evs)
      | Continue rc w' evs \<Rightarrow>
          (case collection_loop H callback interval max_retries n rc w' of
             None \<Rightarrow> None
           | Some (x, rc', w'', evs') \<Rightarrow> Some (x, rc', w'', evs @ evs')))"

text \<open>
  \<open>start_collection\<close>: \<open>retry_count = 0\<close>, the loop, and the \<open>finally\<close> clause,
  which disconnects on every way out of the loop.
\<close>

definition start_collection ::
  "('d, 'w) hooks \<Rightarrow> ('d, 'w) callback option \<Rightarrow> int \<Rightarrow> int \<Rightarrow> nat \<Rightarrow> 'w
    \<Rightarrow> (exit \<times> int \<times> 'w \<times> event list) option" where
  "start_collection H callback interval max_retries fuel w =
     (case collection_loop H callback interval max_retries fuel 0 w of
        None \<Rightarrow> None
      | Some (x, rc, w', evs) \<Rightarrow> Some (x, rc, disconnect H w', evs @ [EDisconnect]))"

text \<open>
  The first \<open>n\<close> passes of the loop when none of them leaves it: the loop state
  reached and the events so far.
\<close>

fun passes ::
  "('d, 'w) hooks \<Rightarrow> ('d, 'w) callback option \<Rightarrow> int \<Rightarrow> int \<Rightarrow> nat \<Rightarrow> int \<Rightarrow> 'w
    \<Rightarrow> (int \<times> 'w \<times> event list) option" where
  "passes H callback interval max_retries 0 retry_count w = Some (retry_count, w, [])"
| "passes H callback interval max_retries (Suc n) retry_count w =
     (case poll_cycle H callback interval max_retries retry_count w of
        Break x rc w' evs \<Rightarrow> None
      | Continue rc w' evs \<Rightarrow>
          (case passes H callback interval max_retries n rc w' of
             None \<Rightarrow> None
           | Some (rc', w'', evs') \<Rightarrow> Some (rc', w'', evs @ evs')))"

text \<open>\<open>k\<close> collections in a row that all return \<open>None\<close>, and the world after them.\<close>

fun consecutive_failures :: "('w \<Rightarrow> (exn + 'd option) \<times> 'w) \<Rightarrow> nat \<Rightarrow> 'w \<Rightarrow> 'w option" where
  "consecutive_failures c 0 w = Some w"
| "consecutive_failures c (Suc k) w =
     (case c w of (Inr None, w') \<Rightarrow> consecutive_failures c k w' | _ \<Rightarrow> None)"

text \<open>The longest run of failed collections with no other event in between.\<close>

fun longest_failures :: "event list \<Rightarrow> nat" where
  "longest_failures [] = 0"
| "longest_failures (e # es) =
     max (length (takeWhile (\<lambda>x. x = ECollect Failed) (e # es))) (longest_failures es)"

text \<open>
  A scripted world for examples: the list of what the successive collections do. When
  the script is used up the operator interrupts the run.
\<close>

definition scripted :: "(unit, (exn + unit option) list) hooks" where
  "scripted =
     \<lparr> collect = (\<lambda>w. case w of [] \<Rightarrow> (Inl KeyboardInterrupt, []) | r # rs \<Rightarrow> (r, rs)),
       sleep = (\<lambda>i w. (Inr (), w)),
       disconnect = (\<lambda>w. w) \<rparr>"

section \<open>The data store (data_store.py)\<close>

text \<open>
  The file system is a map from paths to nodes: a directory, or a CSV file as the list
  of the lines written to it. The text of a line is not rendered: a line is the header
  with its field names, or a row with its values in the order of the field names.
  Any operation on the file system may fail for a reason outside the program (a full
  disk, a permission): \<open>faults\<close> is the schedule of such failures, one flag for each
  operation attempted, in order; \<open>True\<close> makes the operation raise \<open>OSError\<close>
  without effect, and when the schedule is used up no further fault occurs.
\<close>

datatype cell = CStr string | CInt int | CNum pynum

datatype csv_line = Header "string list" | Row "cell list"

datatype node = Dir | File "csv_line list"

record fs_world =
  nodes :: "string \<rightharpoonup> node"
  faults :: "bool list"

type_synonym 'a io = "fs_world \<Rightarrow> (exn + 'a) \<times> fs_world"

definition io_bind :: "'a io \<Rightarrow> ('a \<Rightarrow> 'b io) \<Rightarrow> 'b io" where
  "io_bind m f w = (case m w of (Inl e, w') \<Rightarrow> (Inl e, w') | (Inr a, w') \<Rightarrow> f a w')"

definition next_fault :: "fs_world \<Rightarrow> bool \<times> fs_world" where
  "next_fault w = (case faults w of [] \<Rightarrow> (False, w) | f # fs \<Rightarrow> (f, w\<lparr>faults := fs\<rparr>))"

text \<open>
  \<open>os.makedirs(path, exist_ok=True)\<close> raises when the path is a file;
  \<open>open(path, "a")\<close> raises when the path is a directory and creates the file when
  there is none; a line is written to a file opened before. Intermediate directories
  are not tracked.
\<close>

definition makedirs :: "string \<Rightarrow> unit io" where
  "makedirs path w =
     (case next_fault w of
        (True, w1) \<Rightarrow> (Inl OSError, w1)
      | (False, w1) \<Rightarrow>
          (case nodes w1 path of
             Some (File _) \<Rightarrow> (Inl OSError, w1)
           | _ \<Rightarrow> (Inr (), w1\<lparr>nodes := (nodes w1)(path \<mapsto> Dir)\<rparr>)))"

definition open_append :: "string \<Rightarrow> unit io" where
  "open_append path w =
     (case next_fault w of
        (True, w1) \<Rightarrow> (Inl OSError, w1)
      | (False, w1) \<Rightarrow>
          (case nodes w1 path of
             Some Dir \<Rightarrow> (Inl OSError, w1)
           | Some (File _) \<Rightarrow> (Inr (), w1)
           | None \<Rightarrow> (Inr (), w1\<lparr>nodes := (nodes w1)(path \<mapsto> File [])\<rparr>)))"

definition write_line :: "string \<Rightarrow> csv_line \<Rightarrow> unit io" where
  "write_line path l w =
     (case next_fault w of
        (True, w1) \<Rightarrow> (Inl OSError, w1)
      | (False, w1) \<Rightarrow>
          (case nodes w1 path of
             Some (File ls) \<Rightarrow> (Inr (), w1\<lparr>nodes := (nodes w1)(path \<mapsto> File (ls @ [l]))\<rparr>)
           | _ \<Rightarrow> (Inl OSError, w1)))"

definition path_exists :: "string \<Rightarrow> fs_world \<Rightarrow> bool" where
  "path_exists path w = (nodes w path \<noteq> None)"

text \<open>\<open>os.path.join\<close> of two components, on POSIX.\<close>

definition path_join :: "string \<Rightarrow> string \<Rightarrow> string" where
  "path_join a b =
     (if take 1 b = ''/'' then b
      else if a = [] \<or> last a = CHR ''/'' then a @ b
      else a @ ''/'' @ b)"

definition get_server_dir :: "string \<Rightarrow> string \<Rightarrow> string io" where
  "get_server_dir base_dir server_name =
     io_bind (makedirs (path_join base_dir server_name))
       (\<lambda>_ w. (Inr (path_join base_dir server_name), w))"

definition get_date_filename :: "string \<Rightarrow> string \<Rightarrow> string \<Rightarrow> string io" where
  "get_date_filename base_dir date_str server_name =
     io_bind (get_server_dir base_dir server_name)
       (\<lambda>server_dir w. (Inr (path_join server_dir (''gpu_stats_'' @ date_str @ ''.csv'')), w))"

definition stats_header :: csv_line where
  "stats_header =
     Header [''timestamp'', ''gpu_index'', ''gpu_name'', ''utilization_gpu'',
             ''utilization_memory'', ''memory_total'', ''memory_used'', ''memory_free'',
             ''temperature'', ''power_draw'', ''power_limit'', ''fan_speed'',
             ''process_count'']"

definition stats_row :: "string \<Rightarrow> gpu \<Rightarrow> csv_line" where
  "stats_row ts g =
     Row [CStr ts, CInt (index g), CStr (name g), CNum (utilization_gpu g),
          CNum (utilization_memory g), CNum (memory_total g), CNum (memory_used g),
          CNum (memory_free g), CNum (temperature g), CNum (power_draw g),
          CNum (power_limit g), CNum (fan_speed g), CInt (int (length (processes g)))]"

definition process_header :: csv_line where
  "process_header =
     Header [''timestamp'', ''gpu_index'', ''pid'', ''process_name'', ''used_memory'']"

definition process_row :: "string \<Rightarrow> int \<Rightarrow> process \<Rightarrow> csv_line" where
  "process_row ts gpu_idx proc =
     Row [CStr ts, CInt gpu_idx, CInt (pid proc), CStr (process_name proc),
          CNum (used_memory proc)]"

text \<open>
  The \<open>with\<close> block for the row of one GPU: the file is opened for appending, the
  header is written when \<open>file_exists\<close> is false, then the row.
\<close>

definition write_gpu_row :: "string \<Rightarrow> string \<Rightarrow> bool \<Rightarrow> gpu \<Rightarrow> unit io" where
  "write_gpu_row filename ts file_exists g =
     io_bind (open_append filename)
       (\<lambda>_. io_bind (if \<not> file_exists then write_line filename stats_header
                      else (\<lambda>w. (Inr (), w)))
         (\<lambda>_. write_line filename (stats_row ts g)))"

text \<open>The loop over the processes of one GPU, inside the \<open>with\<close> block of their file.\<close>

fun write_processes :: "string \<Rightarrow> string \<Rightarrow> int \<Rightarrow> bool \<Rightarrow> process list \<Rightarrow> unit io" where
  "write_processes process_file ts gpu_idx process_file_exists [] = (\<lambda>w. (Inr (), w))"
| "write_processes process_file ts gpu_idx process_file_exists (proc # procs) =
     io_bind (if \<not> process_file_exists then write_line process_file process_header
              else (\<lambda>w. (Inr (), w)))
       (\<lambda>_. io_bind (write_line process_file (process_row ts gpu_idx proc))
         (\<lambda>_. write_processes process_file ts gpu_idx True procs))"

definition write_gpu_processes :: "string \<Rightarrow> string \<Rightarrow> string \<Rightarrow> string \<Rightarrow> gpu \<Rightarrow> unit io" where
  "write_gpu_processes base_dir server_name date_str ts g =
     (if processes g = [] then (\<lambda>w. (Inr (), w))
      else
        io_bind (get_server_dir base_dir server_name)
          (\<lambda>server_dir.
            (let process_file =
                   path_join server_dir
                     (''gpu_'' @ py_str (index g) @ ''_processes_'' @ date_str @ ''.csv'')
             in (\<lambda>w. io_bind (open_append process_file)
                        (\<lambda>_. write_processes process_file ts (index g)
                                (path_exists process_file w) (processes g)) w))))"

text \<open>
  The body of the loop over the GPUs of a snapshot, for one GPU: its row, then its
  processes. \<open>date_str\<close> is the date read for the name of the process file.
\<close>

definition store_gpu ::
  "string \<Rightarrow> string \<Rightarrow> string \<Rightarrow> string \<Rightarrow> string \<Rightarrow> bool \<Rightarrow> gpu \<Rightarrow> unit io" where
  "store_gpu base_dir server_name date_str filename ts file_exists g =
     io_bind (write_gpu_row filename ts file_exists g)
       (\<lambda>_. write_gpu_processes base_dir server_name date_str ts g)"

text \<open>
  The loop itself. \<open>clock\<close> gives the date read from the wall clock:
  \<open>clock 0\<close> is the reading of \<open>_get_date_filename\<close>, \<open>clock (Suc k)\<close> the one
  made for the process file of the GPU at position \<open>k\<close>. After the first row
  \<open>file_exists\<close> is true.
\<close>

fun store_gpus ::
  "string \<Rightarrow> string \<Rightarrow> (nat \<Rightarrow> string) \<Rightarrow> string \<Rightarrow> string \<Rightarrow> nat \<Rightarrow> bool \<Rightarrow> gpu list
    \<Rightarrow> unit io" where
  "store_gpus base_dir server_name clock filename ts k file_exists [] = (\<lambda>w. (Inr (), w))"
| "store_gpus base_dir server_name clock filename ts k file_exists (g # gs) =
     io_bind (store_gpu base_dir server_name (clock (Suc k)) filename ts file_exists g)
       (\<lambda>_. store_gpus base_dir server_name clock filename ts (Suc k) True gs)"

text \<open>The body of the \<open>try\<close> block of \<open>store_data\<close>, and \<open>store_data\<close> with its handler.\<close>

definition store_data_body :: "string \<Rightarrow> (nat \<Rightarrow> string) \<Rightarrow> snapshot \<Rightarrow> bool io" where
  "store_data_body base_dir clock data =
     (case server data of
        None \<Rightarrow> (\<lambda>w. (Inr False, w))
      | Some server_name \<Rightarrow>
          if server_name = [] then (\<lambda>w. (Inr False, w))
          else
            io_bind (get_date_filename base_dir (clock 0) server_name)
              (\<lambda>filename w.
                 io_bind (store_gpus base_dir server_name clock filename (timestamp data) 0
                            (path_exists filename w) (gpus data))
                   (\<lambda>_ w'. (Inr True, w')) w))"

definition store_data :: "string \<Rightarrow> (nat \<Rightarrow> string) \<Rightarrow> snapshot \<Rightarrow> bool io" where
  "store_data base_dir clock data w =
     (case store_data_body base_dir clock data w of
        (Inl e, w') \<Rightarrow> if is_Exception e then (Inr False, w') else (Inl e, w')
      | (Inr b, w') \<Rightarrow> (Inr b, w'))"

text \<open>The lines of the file at a path; none when there is no file there.\<close>

definition file_lines :: "fs_world \<Rightarrow> string \<Rightarrow> csv_line list option" where
  "file_lines w path = (case nodes w path of Some (File ls) \<Rightarrow> Some ls | _ \<Rightarrow> None)"

definition stats_file :: "string \<Rightarrow> string \<Rightarrow> string \<Rightarrow> string" where
  "stats_file base_dir server_name date_str =
     path_join (path_join base_dir server_name) (''gpu_stats_'' @ date_str @ ''.csv'')"

text \<open>An operation that raises nothing but \<open>OSError\<close>, whatever the world.\<close>

definition raises_os :: "'a io \<Rightarrow> bool" where
  "raises_os m = (\<forall>w e w'. m w = (Inl e, w') \<longrightarrow> e = OSError)"

text \<open>
  An operation that leaves the node at a path as it is, and an operation that only
  appends to files: every file there before is still a file, with its lines first.
\<close>

definition keeps :: "string \<Rightarrow> 'a io \<Rightarrow> bool" where
  "keeps q m = (\<forall>w r w'. m w = (r, w') \<longrightarrow> nodes w' q = nodes w q)"

definition grows :: "fs_world \<Rightarrow> fs_world \<Rightarrow> bool" where
  "grows w w' =
     (\<forall>p ls. nodes w p = Some (File ls) \<longrightarrow> (\<exists>more. nodes w' p = Some (File (ls @ more))))"

definition appends :: "'a io \<Rightarrow> bool" where
  "appends m = (\<forall>w r w'. m w = (r, w') \<longrightarrow> grows w w')"

section \<open>The collector wired to the store (cli.py, run)\<close>

text \<open>
  \<open>run\<close> starts \<open>collector.start_collection\<close> with \<open>data_store.store_data\<close> as the
  callback. The world of one such collector: its SSH client, the file system, and the
  environment, namely what the remote side answers to the \<open>j\<close>-th command of the
  \<open>k\<close>-th collection, and the readings of the clock. \<open>time.sleep\<close> of a
  number of seconds that does not fit the 64-bit count of nanoseconds raises
  \<open>OverflowError\<close>, and of any other negative number \<open>ValueError\<close>.
\<close>

record world =
  ssh :: ssh_client
  disk :: fs_world
  cycle :: nat
  remote :: "nat \<Rightarrow> nat \<Rightarrow> response"
  now :: string
  today :: "nat \<Rightarrow> string"
  remote_log :: "ssh_event list"

definition max_sleep_seconds :: int where
  "max_sleep_seconds = 9223372036"

definition collector :: "server_config \<Rightarrow> (snapshot, world) hooks" where
  "collector cfg =
     \<lparr> collect = (\<lambda>w.
         case collect_gpu_stats cfg (now w) (remote w (cycle w) 0) (remote w (cycle w) 1)
                (remote w (cycle w) 2) (ssh w) of
           (r, c, evs) \<Rightarrow>
             (r, w\<lparr>ssh := c, cycle := Suc (cycle w), remote_log := remote_log w @ evs\<rparr>)),
       sleep = (\<lambda>interval w.
         if interval < - max_sleep_seconds \<or> max_sleep_seconds < interval
         then (Inl OverflowError, w)
         else if interval < 0 then (Inl ValueError, w)
         else (Inr (), w)),
       disconnect = (\<lambda>w.
         case ssh_disconnect (ssh w) of
           (c, evs) \<Rightarrow> w\<lparr>ssh := c, remote_log := remote_log w @ evs\<rparr>) \<rparr>"

definition store_callback :: "string \<Rightarrow> (snapshot, world) callback" where
  "store_callback base_dir data w =
     (case store_data base_dir (today w) data (disk w) of
        (r, d) \<Rightarrow> (r, w\<lparr>disk := d\<rparr>))"

section \<open>Example data\<close>

text \<open>
  The GPU and the process of the end-to-end example of the specification, snapshots
  with it, and an empty file system on which nothing fails.
\<close>

definition test_gpu :: gpu where
  "test_gpu =
     \<lparr> index = 0, name = ''TestGPU'', uuid = ''GPU-abc'',
       utilization_gpu = PyFloat ''10'', utilization_memory = PyFloat ''5'',
       memory_total = PyFloat ''8000'', memory_used = PyFloat ''2000'',
       memory_free = PyFloat ''6000'', temperature = PyFloat ''45'',
       power_draw = PyFloat ''20.5'', power_limit = PyFloat ''70'',
       fan_speed = PyFloat ''30'',
       processes = [\<lparr> pid = 123, process_name = ''python'', used_memory = PyFloat ''512'' \<rparr>] \<rparr>"

definition snapshot_of :: "string \<Rightarrow> gpu list \<Rightarrow> snapshot" where
  "snapshot_of ts gs = \<lparr> timestamp = ts, server = Some ''node1'', host = ''10.0.0.1'', gpus = gs \<rparr>"

definition empty_disk :: fs_world where
  "empty_disk = \<lparr> nodes = Map.empty, faults = [] \<rparr>"

definition new_year :: "nat \<Rightarrow> string" where
  "new_year k = ''2024-01-01''"

definition test_config :: server_config where
  "test_config = \<lparr> config_name = ''node1'', config_host = ''10.0.0.1'' \<rparr>"

text \<open>
  A remote side that is reachable and answers the three commands of every collection
  with the same three outputs, and the world of a collector that starts with it,
  not connected, on an empty file system with the given schedule of faults.
\<close>

definition answers :: "string \<Rightarrow> string \<Rightarrow> string \<Rightarrow> nat \<Rightarrow> nat \<Rightarrow> response" where
  "answers a b c k j =
     \<lparr> transport = Some True, connects = True, exec = ExecReturns ([a, b, c] ! j) [] 0 \<rparr>"

definition test_world :: "string \<Rightarrow> string \<Rightarrow> string \<Rightarrow> bool list \<Rightarrow> world" where
  "test_world a b c fs =
     \<lparr> ssh = \<lparr> client = None \<rparr>,
       disk = \<lparr> nodes = Map.empty, faults = fs \<rparr>,
       cycle = 0,
       remote = answers a b c,
       now = ''2024-01-01T10:00:00'',
       today = new_year,
       remote_log = [] \<rparr>"

text \<open>
  A GPU table of three lines: the line of the end-to-end example, a line that is one
  field short, and a line with an empty fan speed whose index is not in the UUID
  table. Then a line of twelve fields, and a line whose fan speed is not a number.
\<close>

definition three_lines :: string where
  "three_lines =
     ''0, TestGPU, 10, 5, 8000, 2000, 6000, 45, 20.5, 70, 30'' @ [CHR 0x0A]
     @ ''1, Short, 10, 5, 8000, 2000, 6000, 45, 20.5, 70'' @ [CHR 0x0A]
     @ ''2, Other, 1, 2, 3, 4, 5, 6, 7, 8, ''"

definition twelve_fields :: string where
  "twelve_fields = ''0, Tesla, PCIe, 10, 5, 8000, 2000, 6000, 45, 20.5, 70, 30''"

definition fan_not_available :: string where
  "fan_not_available = ''0, TestGPU, 10, 5, 8000, 2000, 6000, 45, 20.5, 70, [N/A]''"

text \<open>
  A process table for the GPU table above, with a process of the first GPU, one of no
  GPU, a line that is one field short, a process of the GPU with UUID \<open>unknown\<close>
  and a second process of the first GPU. Then a line of five fields, and a line whose
  memory is not a number.
\<close>

definition five_processes :: string where
  "five_processes =
     ''123, python, GPU-abc, 512'' @ [CHR 0x0A]
     @ ''77, orphan, GPU-zzz, 10'' @ [CHR 0x0A]
     @ ''9, short, GPU-abc'' @ [CHR 0x0A]
     @ ''45, train, unknown, 2048'' @ [CHR 0x0A]
     @ ''124, python, GPU-abc, 1e3''"

definition five_fields :: string where
  "five_fields = ''123, python, train.py, GPU-abc, 512''"

definition memory_not_available :: string where
  "memory_not_available = ''123, python, GPU-abc, [N/A]''"

text \<open>
  A process table whose second line belongs to no GPU of the tables above and has a
  memory that is not a number.
\<close>

definition orphan_not_available :: string where
  "orphan_not_available =
     ''123, python, GPU-abc, 512'' @ [CHR 0x0A] @ ''77, orphan, GPU-zzz, [N/A]''"

section \<open>Properties of the collection loop\<close>

lemma passes_then_loop:
  "passes H cb iv m n rc w = Some (rc1, w1, evs1) \<Longrightarrow>
   collection_loop H cb iv m (n + k) rc w =
     (case collection_loop H cb iv m k rc1 w1 of
        None \<Rightarrow> None
      | Some (x, r, w', evs) \<Rightarrow> Some (x, r, w', evs1 @ evs))"
proof (induction n arbitrary: rc w rc1 w1 evs1)
  case 0
  then show ?case by (auto split: option.splits)
next
  case (Suc n)
  then show ?case
    by (auto split: step.splits option.splits prod.splits)
qed

lemma loop_more_fuel:
  "collection_loop H cb iv m n rc w = Some r \<Longrightarrow> collection_loop H cb iv m (n + k) rc w = Some r"
proof (induction n arbitrary: rc w r)
  case 0
  then show ?case by simp
next
  case (Suc n)
  then show ?case
    by (auto split: step.splits option.splits prod.splits)
qed

lemma failures_give_up:
  "consecutive_failures (collect H) (Suc k) w = Some w2 \<Longrightarrow> rc + int (Suc k) = m \<Longrightarrow>
   collection_loop H cb iv m (Suc k) rc w = Some (GiveUp, m, w2, replicate (Suc k) (ECollect Failed))"
proof (induction k arbitrary: rc w)
  case 0
  then show ?case
    by (auto simp: poll_cycle_def split: prod.splits sum.splits option.splits)
next
  case (Suc k)
  from Suc.prems(1) obtain w' where c: "collect H w = (Inr None, w')"
    and r: "consecutive_failures (collect H) (Suc k) w' = Some w2"
    by (auto split: prod.splits sum.splits option.splits)
  have p: "poll_cycle H cb iv m rc w = Continue (rc + 1) w' [ECollect Failed]"
    using c Suc.prems(2) by (simp add: poll_cycle_def)
  have "collection_loop H cb iv m (Suc k) (rc + 1) w'
          = Some (GiveUp, m, w2, replicate (Suc k) (ECollect Failed))"
    using Suc.IH [OF r] Suc.prems(2) by simp
  then show ?case using p by simp
qed

lemma poll_cycle_no_disconnect:
  "poll_cycle H cb iv m rc w = Continue r w' evs \<Longrightarrow> EDisconnect \<notin> set evs"
  "poll_cycle H cb iv m rc w = Break x r w' evs \<Longrightarrow> EDisconnect \<notin> set evs"
  by (auto simp: poll_cycle_def split: prod.splits sum.splits option.splits if_splits)

lemma passes_no_disconnect:
  "passes H cb iv m n rc w = Some (r, w', evs) \<Longrightarrow> EDisconnect \<notin> set evs"
proof (induction n arbitrary: rc w r w' evs)
  case 0
  then show ?case by simp
next
  case (Suc n)
  then show ?case
    by (auto split: step.splits option.splits prod.splits dest: poll_cycle_no_disconnect)
qed

lemma loop_no_disconnect:
  "collection_loop H cb iv m n rc w = Some (x, r, w', evs) \<Longrightarrow> EDisconnect \<notin> set evs"
proof (induction n arbitrary: rc w x r w' evs)
  case 0
  then show ?case by simp
next
  case (Suc n)
  then show ?case
    by (auto split: step.splits option.splits prod.splits dest: poll_cycle_no_disconnect)
qed

lemma count_list_absent: "x \<notin> set xs \<Longrightarrow> count_list xs x = 0"
  by (induction xs) auto

text \<open>
  C1. Whenever the loop is at a point where \<open>retry_count\<close> is 0 (its start, or just
  after a successful pass) and the next \<open>max_retries\<close> collections all fail, the
  loop is left by the give-up \<open>break\<close> after exactly those collections; the failed
  passes consist of the collection alone, with no sleep, and \<open>disconnect\<close> is
  called once, as the last event of the run.
\<close>

theorem give_up_after_max_retries:
  assumes "1 \<le> max_retries"
    and "passes H cb iv max_retries n 0 w = Some (0, w1, evs1)"
    and "consecutive_failures (collect H) (nat max_retries) w1 = Some w2"
    and "n + nat max_retries \<le> fuel"
  shows "start_collection H cb iv max_retries fuel w =
           Some (GiveUp, max_retries, disconnect H w2,
                 evs1 @ replicate (nat max_retries) (ECollect Failed) @ [EDisconnect])
         \<and> count_list (evs1 @ replicate (nat max_retries) (ECollect Failed) @ [EDisconnect])
              EDisconnect = 1"
proof -
  obtain k where k: "nat max_retries = Suc k"
    using assms(1) by (cases "nat max_retries") auto
  have "collection_loop H cb iv max_retries (Suc k) 0 w1
          = Some (GiveUp, max_retries, w2, replicate (Suc k) (ECollect Failed))"
    using failures_give_up [of H k w1 w2 0 max_retries cb iv] assms(1,3) k by simp
  then have "collection_loop H cb iv max_retries (n + Suc k) 0 w
          = Some (GiveUp, max_retries, w2, evs1 @ replicate (Suc k) (ECollect Failed))"
    using passes_then_loop [OF assms(2), of "Suc k"] by simp
  then have "collection_loop H cb iv max_retries (n + Suc k + (fuel - (n + Suc k))) 0 w
          = Some (GiveUp, max_retries, w2, evs1 @ replicate (Suc k) (ECollect Failed))"
    by (rule loop_more_fuel)
  then have l: "collection_loop H cb iv max_retries fuel 0 w
          = Some (GiveUp, max_retries, w2, evs1 @ replicate (Suc k) (ECollect Failed))"
    using assms(4) k by simp
  have "EDisconnect \<notin> set evs1"
    using passes_no_disconnect [OF assms(2)] .
  then have "count_list (evs1 @ replicate (Suc k) (ECollect Failed) @ [EDisconnect]) EDisconnect = 1"
    by (simp add: count_list_absent)
  then show ?thesis using l k by (simp add: start_collection_def)
qed

theorem give_up_after_max_retries_witness:
  "start_collection scripted None 5 3 4 [Inr (Some ()), Inr None, Inr None, Inr None] =
     Some (GiveUp, 3, [],
           [ECollect Succeeded, ESleep 5, ECollect Failed, ECollect Failed, ECollect Failed, EDisconnect])"
  using give_up_after_max_retries [of 3 scripted None 5 1 "[Inr (Some ()), Inr None, Inr None, Inr None]"
      "[Inr None, Inr None, Inr None]" "[ECollect Succeeded, ESleep 5]" "[]" 4]
  by (simp add: scripted_def poll_cycle_def eval_nat_numeral)

lemma longest_failures_suffix:
  "\<forall>x \<in> set fs. x = ECollect Failed \<Longrightarrow> length fs \<le> longest_failures (pre @ fs)"
proof (induction pre)
  case Nil
  then show ?case
    by (cases fs) (auto simp: takeWhile_eq_all_conv [THEN iffD2])
next
  case (Cons p pre)
  then show ?case by (simp add: max.coboundedI2)
qed

lemma give_up_trailing:
  "collection_loop H cb iv m n rc w = Some (GiveUp, r, w', evs) \<Longrightarrow>
   m \<le> r \<and> (\<exists>pre fs. evs = pre @ fs \<and> (\<forall>x \<in> set fs. x = ECollect Failed)
                 \<and> r = int (length fs) + (if pre = [] then rc else 0))"
proof (induction n arbitrary: rc w r w' evs)
  case 0
  then show ?case by simp
next
  case (Suc n)
  show ?case
  proof (cases "poll_cycle H cb iv m rc w")
    case (Break x rc1 w1 evs1)
    with Suc.prems have "x = GiveUp" "rc1 = r" "evs1 = evs" by auto
    with Break have "evs = [ECollect Failed] \<and> r = rc + 1 \<and> m \<le> r"
      by (auto simp: poll_cycle_def split: prod.splits sum.splits option.splits if_splits
               elim: handler.elims)
    then show ?thesis
      by (intro conjI exI [of _ "[]"] exI [of _ "[ECollect Failed]"]) auto
  next
    case (Continue rc1 w1 evs1)
    with Suc.prems obtain evs2 where
      l: "collection_loop H cb iv m n rc1 w1 = Some (GiveUp, r, w', evs2)" and e: "evs = evs1 @ evs2"
      by (auto split: option.splits)
    from Suc.IH [OF l] obtain pre fs where
      m: "m \<le> r" and p: "evs2 = pre @ fs" "\<forall>x \<in> set fs. x = ECollect Failed"
      and r: "r = int (length fs) + (if pre = [] then rc1 else 0)"
      by blast
    from Continue consider
      (failed) "evs1 = [ECollect Failed]" "rc1 = rc + 1"
      | (ok) "rc1 = 0" "evs1 \<noteq> []"
      by (auto simp: poll_cycle_def split: prod.splits sum.splits option.splits if_splits)
    then show ?thesis
    proof cases
      case failed
      show ?thesis
      proof (cases "pre = []")
        case True
        with failed e p r m show ?thesis
          by (intro conjI exI [of _ "[]"] exI [of _ "ECollect Failed # fs"]) auto
      next
        case False
        with failed e p r m show ?thesis
          by (intro conjI exI [of _ "ECollect Failed # pre"] exI [of _ fs]) auto
      qed
    next
      case ok
      with e p r m show ?thesis
        by (intro conjI exI [of _ "evs1 @ pre"] exI [of _ fs]) auto
    qed
  qed
qed

text \<open>
  C2. A pass whose collection succeeds leaves \<open>retry_count\<close> at 0, and never leaves
  the loop by the give-up \<open>break\<close>; and a run in which fewer than
  \<open>max_retries\<close> collections ever fail in a row is not left by the give-up
  \<open>break\<close>.
\<close>

theorem success_resets_retry_count:
  "(collect H w = (Inr (Some d), w1) \<longrightarrow>
      (case poll_cycle H cb iv m rc w of
         Continue r w' evs \<Rightarrow> r = 0
       | Break x r w' evs \<Rightarrow> r = 0 \<and> x \<noteq> GiveUp))
   \<and> (collection_loop H cb iv m fuel 0 w0 = Some (x, r, w', evs)
         \<and> int (longest_failures evs) < m \<longrightarrow> x \<noteq> GiveUp)"
proof (intro conjI impI)
  assume "collect H w = (Inr (Some d), w1)"
  then show "case poll_cycle H cb iv m rc w of
               Continue r w' evs \<Rightarrow> r = 0 | Break x r w' evs \<Rightarrow> r = 0 \<and> x \<noteq> GiveUp"
    by (auto simp: poll_cycle_def split: prod.splits sum.splits option.splits elim: handler.elims)
next
  assume a: "collection_loop H cb iv m fuel 0 w0 = Some (x, r, w', evs) \<and> int (longest_failures evs) < m"
  show "x \<noteq> GiveUp"
  proof
    assume "x = GiveUp"
    with a give_up_trailing [of H cb iv m fuel 0 w0 r w' evs] obtain pre fs where
      "m \<le> r" "evs = pre @ fs" "\<forall>x \<in> set fs. x = ECollect Failed" "r \<le> int (length fs)"
      by (auto split: if_splits)
    with longest_failures_suffix [of fs pre] a show False by simp
  qed
qed

theorem success_resets_retry_count_witness:
  "collection_loop scripted None 5 3 7 0
     [Inr None, Inr None, Inr (Some ()), Inr None, Inr None, Inr (Some ())] =
   Some (Interrupted, 0, [],
     [ECollect Failed, ECollect Failed, ECollect Succeeded, ESleep 5,
      ECollect Failed, ECollect Failed, ECollect Succeeded, ESleep 5, ECollect Raised])
   \<and> poll_cycle scripted None 5 3 2 [Inr (Some ())] = Continue 0 [] [ECollect Succeeded, ESleep 5]
   \<and> Interrupted \<noteq> GiveUp"
  using success_resets_retry_count [where H = scripted and w = "[Inr (Some ())]" and d = "()"
      and ?w1.0 = "[]" and cb = None and iv = 5 and m = 3 and rc = 2 and fuel = 7
      and ?w0.0 = "[Inr None, Inr None, Inr (Some ()), Inr None, Inr None, Inr (Some ())]"
      and x = Interrupted and r = 0 and w' = "[]"
      and evs = "[ECollect Failed, ECollect Failed, ECollect Succeeded, ESleep 5,
        ECollect Failed, ECollect Failed, ECollect Succeeded, ESleep 5, ECollect Raised]"]
  by (simp add: scripted_def poll_cycle_def eval_nat_numeral)

section \<open>Properties of the SSH client\<close>

text \<open>
  C3. When \<open>execute_command\<close> is called with no session object, or with a session
  whose transport is absent or inactive, it attempts to connect exactly once, before
  the command; when that attempt fails the command is not run and the result is
  \<open>(False, "", "Unable to connect to server")\<close>.
\<close>

theorem execute_command_connects_once:
  assumes "client c = None \<or> transport r = None \<or> transport r = Some False"
  shows "snd (snd (execute_command command r c)) =
           (if connects r then [EConnect, EExec command] else [EConnect])
         \<and> count_list (snd (snd (execute_command command r c))) EConnect = 1
         \<and> (\<not> connects r \<longrightarrow>
              fst (execute_command command r c) = (False, '''', ''Unable to connect to server''))"
  using assms
  by (auto simp: execute_command_def connect_def exec_command_def split: exec_result.splits)

theorem execute_command_connects_once_witness:
  "execute_command NVIDIA_SMI_CMD
      \<lparr>transport = None, connects = False, exec = ExecReturns ''0, GPU'' '''' 0\<rparr> \<lparr>client = None\<rparr>
    = ((False, '''', ''Unable to connect to server''), \<lparr>client = Some ()\<rparr>, [EConnect])"
  using execute_command_connects_once [of "\<lparr>client = None\<rparr>"
      "\<lparr>transport = None, connects = False, exec = ExecReturns ''0, GPU'' '''' 0\<rparr>" NVIDIA_SMI_CMD]
  by (simp add: execute_command_def connect_def)

section \<open>Properties of the data store\<close>

subsection \<open>The store raises nothing but \<open>OSError\<close>\<close>

lemma raises_os_return: "raises_os (\<lambda>w. (Inr a, w))"
  by (simp add: raises_os_def)

lemma raises_os_bind: "raises_os m \<Longrightarrow> (\<And>a. raises_os (f a)) \<Longrightarrow> raises_os (io_bind m f)"
  unfolding raises_os_def io_bind_def
  by (auto split: prod.splits sum.splits)

lemma raises_os_dep: "(\<And>v. raises_os (m v)) \<Longrightarrow> raises_os (\<lambda>w. m w w)"
  by (simp add: raises_os_def)

lemma raises_os_makedirs: "raises_os (makedirs p)"
  by (auto simp: raises_os_def makedirs_def next_fault_def split: prod.splits bool.splits option.splits node.splits list.splits)

lemma raises_os_open_append: "raises_os (open_append p)"
  by (auto simp: raises_os_def open_append_def split: prod.splits bool.splits option.splits node.splits)

lemma raises_os_write_line: "raises_os (write_line p l)"
  by (auto simp: raises_os_def write_line_def split: prod.splits bool.splits option.splits node.splits)

lemma raises_os_get_server_dir: "raises_os (get_server_dir b s)"
  unfolding get_server_dir_def
  by (intro raises_os_bind raises_os_makedirs raises_os_return)


lemma raises_os_write_processes: "raises_os (write_processes f ts i pe ps)"
proof (induction ps arbitrary: pe)
  case Nil
  then show ?case by (simp add: raises_os_return)
next
  case (Cons p ps)
  have h: "raises_os (if \<not> pe then write_line f process_header else (\<lambda>w. (Inr (), w)))"
    by (simp add: raises_os_write_line raises_os_return)
  show ?case
    unfolding write_processes.simps
    by (intro raises_os_bind h raises_os_write_line Cons.IH)
qed

lemma raises_os_write_gpu_row: "raises_os (write_gpu_row f ts fe g)"
proof -
  have h: "raises_os (if \<not> fe then write_line f stats_header else (\<lambda>w. (Inr (), w)))"
    by (simp add: raises_os_write_line raises_os_return)
  show ?thesis
    unfolding write_gpu_row_def
    by (intro raises_os_bind raises_os_open_append raises_os_write_line h)
qed

lemma raises_os_write_gpu_processes: "raises_os (write_gpu_processes b s d ts g)"
proof (cases "processes g = []")
  case True
  then show ?thesis by (simp add: write_gpu_processes_def raises_os_return)
next
  case False
  have "raises_os (\<lambda>w. io_bind (open_append pf)
                         (\<lambda>_. write_processes pf ts (index g) (path_exists pf w) (processes g)) w)" for pf
  proof -
    have "raises_os (io_bind (open_append pf)
            (\<lambda>_. write_processes pf ts (index g) (path_exists pf v) (processes g)))" for v
      by (intro raises_os_bind raises_os_open_append raises_os_write_processes)
    then show ?thesis
      by (rule raises_os_dep [where m = "\<lambda>v. io_bind (open_append pf)
            (\<lambda>_. write_processes pf ts (index g) (path_exists pf v) (processes g))"])
  qed
  then show ?thesis
    using False unfolding write_gpu_processes_def Let_def
    by (simp add: raises_os_bind raises_os_get_server_dir)
qed

lemma raises_os_store_gpu: "raises_os (store_gpu b s d f ts fe g)"
  unfolding store_gpu_def
  by (intro raises_os_bind raises_os_write_gpu_row raises_os_write_gpu_processes)

lemma raises_os_store_gpus: "raises_os (store_gpus b s c f ts k fe gs)"
proof (induction gs arbitrary: k fe)
  case Nil
  then show ?case by (simp add: raises_os_return)
next
  case (Cons g gs)
  show ?case
    unfolding store_gpus.simps
    by (intro raises_os_bind raises_os_store_gpu Cons.IH)
qed

lemma raises_os_store_data_body: "raises_os (store_data_body b c d)"
proof (cases "server d")
  case None
  then show ?thesis by (simp add: store_data_body_def raises_os_return)
next
  case (Some sn)
  have "raises_os (\<lambda>w. io_bind (store_gpus b sn c fn (timestamp d) 0 (path_exists fn w) (gpus d))
                         (\<lambda>_ w'. (Inr True, w')) w)" for fn
  proof -
    have "raises_os (io_bind (store_gpus b sn c fn (timestamp d) 0 (path_exists fn v) (gpus d))
            (\<lambda>_ w'. (Inr True, w')))" for v
      by (intro raises_os_bind raises_os_store_gpus raises_os_return)
    then show ?thesis
      by (rule raises_os_dep [where m = "\<lambda>v. io_bind
            (store_gpus b sn c fn (timestamp d) 0 (path_exists fn v) (gpus d))
            (\<lambda>_ w'. (Inr True, w'))"])
  qed
  moreover have "raises_os (get_date_filename b (c 0) sn)"
    unfolding get_date_filename_def
    by (intro raises_os_bind raises_os_get_server_dir raises_os_return)
  ultimately show ?thesis
    using Some by (simp add: store_data_body_def raises_os_return raises_os_bind)
qed


lemma store_data_failure:
  "fst (store_data_body base clock d w) = Inl e \<Longrightarrow>
   store_data base clock d w = (Inr False, snd (store_data_body base clock d w))"
proof -
  assume a: "fst (store_data_body base clock d w) = Inl e"
  then obtain w' where b: "store_data_body base clock d w = (Inl e, w')"
    by (cases "store_data_body base clock d w") auto
  with raises_os_store_data_body [of base clock d] have "e = OSError"
    by (auto simp: raises_os_def)
  with b show ?thesis by (simp add: store_data_def)
qed

subsection \<open>Paths\<close>

lemma digits_head: "digits n \<noteq> [] \<and> hd (digits n) \<in> set ''0123456789''"
proof (induction n rule: digits.induct)
  case (1 n)
  show ?case
  proof (cases "n < 10")
    case True
    then have "n \<in> {0, 1, 2, 3, 4, 5, 6, 7, 8, 9}" by auto
    then show ?thesis by (subst digits.simps, subst digits.simps) auto
  next
    case False
    with 1 show ?thesis by (subst digits.simps, subst (2) digits.simps) auto
  qed
qed

lemma py_str_head: "py_str i \<noteq> [] \<and> hd (py_str i) \<noteq> CHR ''s''"
  using digits_head [of "nat i"] digits_head [of "nat (- i)"]
  by (auto simp: py_str_def)

lemma path_join_relative:
  "take 1 b \<noteq> ''/'' \<Longrightarrow>
   path_join a b = a @ (if a = [] \<or> last a = CHR ''/'' then [] else ''/'') @ b"
  by (simp add: path_join_def)

lemma stats_file_not_dir:
  "path_join dir (''gpu_stats_'' @ date @ ''.csv'') \<noteq> dir"
  by (simp add: path_join_def)

lemma stats_file_not_process_file:
  "path_join dir (''gpu_stats_'' @ date @ ''.csv'')
     \<noteq> path_join dir (''gpu_'' @ py_str i @ ''_processes_'' @ date' @ ''.csv'')"
proof -
  have "''stats_'' @ date @ ''.csv'' \<noteq> py_str i @ ''_processes_'' @ date' @ ''.csv''"
    using py_str_head [of i] by (cases "py_str i") auto
  then show ?thesis by (simp add: path_join_def)
qed

subsection \<open>What an operation leaves alone\<close>

lemma keeps_return: "keeps q (\<lambda>w. (Inr a, w))"
  by (simp add: keeps_def)

lemma keeps_bind: "keeps q m \<Longrightarrow> (\<And>a. keeps q (f a)) \<Longrightarrow> keeps q (io_bind m f)"
  unfolding keeps_def io_bind_def
  by (auto split: prod.splits sum.splits)

lemma keeps_dep: "(\<And>v. keeps q (m v)) \<Longrightarrow> keeps q (\<lambda>w. m w w)"
  by (simp add: keeps_def)

lemma keeps_makedirs: "p \<noteq> q \<Longrightarrow> keeps q (makedirs p)"
  by (auto simp: keeps_def makedirs_def next_fault_def
           split: prod.splits bool.splits option.splits node.splits list.splits)

lemma keeps_open_append: "p \<noteq> q \<Longrightarrow> keeps q (open_append p)"
  by (auto simp: keeps_def open_append_def next_fault_def
           split: prod.splits bool.splits option.splits node.splits list.splits)

lemma keeps_write_line: "p \<noteq> q \<Longrightarrow> keeps q (write_line p l)"
  by (auto simp: keeps_def write_line_def next_fault_def
           split: prod.splits bool.splits option.splits node.splits list.splits)

lemma keeps_write_processes: "p \<noteq> q \<Longrightarrow> keeps q (write_processes p ts i pe ps)"
proof (induction ps arbitrary: pe)
  case Nil
  then show ?case by (simp add: keeps_return)
next
  case (Cons x ps)
  have h: "keeps q (if \<not> pe then write_line p process_header else (\<lambda>w. (Inr (), w)))"
    using Cons.prems by (simp add: keeps_write_line keeps_return)
  show ?case
    unfolding write_processes.simps
    by (intro keeps_bind h keeps_write_line Cons.IH Cons.prems)
qed

lemma keeps_get_server_dir: "path_join b s \<noteq> q \<Longrightarrow> keeps q (get_server_dir b s)"
  unfolding get_server_dir_def
  by (intro keeps_bind keeps_makedirs keeps_return)

lemma keeps_write_gpu_processes:
  "keeps (path_join (path_join b s) (''gpu_stats_'' @ date @ ''.csv''))
     (write_gpu_processes b s d ts g)"
proof (cases "processes g = []")
  case True
  then show ?thesis by (simp add: write_gpu_processes_def keeps_return)
next
  case False
  let ?q = "path_join (path_join b s) (''gpu_stats_'' @ date @ ''.csv'')"
  let ?pf = "path_join (path_join b s) (''gpu_'' @ py_str (index g) @ ''_processes_'' @ d @ ''.csv'')"
  have ne: "?pf \<noteq> ?q"
    using stats_file_not_process_file [of "path_join b s" date "index g" d] by simp
  have "keeps ?q (io_bind (open_append ?pf)
            (\<lambda>_. write_processes ?pf ts (index g) (path_exists ?pf v) (processes g)))" for v
    by (intro keeps_bind keeps_open_append keeps_write_processes ne)
  then have inner: "keeps ?q (\<lambda>w. io_bind (open_append ?pf)
            (\<lambda>_. write_processes ?pf ts (index g) (path_exists ?pf w) (processes g)) w)"
    by (rule keeps_dep [where m = "\<lambda>v. io_bind (open_append ?pf)
            (\<lambda>_. write_processes ?pf ts (index g) (path_exists ?pf v) (processes g))"])
  have dir: "path_join b s \<noteq> ?q"
    using stats_file_not_dir [of "path_join b s" date] by simp
  have "keeps ?q (io_bind (makedirs (path_join b s))
          (\<lambda>_ w. io_bind (open_append ?pf)
            (\<lambda>_. write_processes ?pf ts (index g) (path_exists ?pf w) (processes g)) w))"
    by (intro keeps_bind keeps_makedirs dir inner)
  then show ?thesis
    using False
    by (simp add: write_gpu_processes_def get_server_dir_def io_bind_def keeps_def Let_def
             split: prod.splits sum.splits)
qed

subsection \<open>The lines of the statistics file\<close>

lemma open_append_ok:
  "open_append q w = (Inr u, w') \<Longrightarrow>
   nodes w q \<noteq> Some Dir \<and>
   nodes w' q = Some (File (case file_lines w q of None \<Rightarrow> [] | Some ls \<Rightarrow> ls))"
  by (auto simp: open_append_def next_fault_def file_lines_def
           split: prod.splits bool.splits option.splits node.splits list.splits)

lemma write_line_ok:
  "write_line q l w = (Inr u, w') \<Longrightarrow> nodes w q = Some (File ls) \<Longrightarrow>
   nodes w' q = Some (File (ls @ [l]))"
  by (auto simp: write_line_def next_fault_def
           split: prod.splits bool.splits option.splits node.splits list.splits)

lemma write_gpu_row_ok:
  assumes "write_gpu_row q ts fe g w = (Inr u, w')"
  shows "nodes w q \<noteq> Some Dir \<and>
         nodes w' q = Some (File ((case file_lines w q of None \<Rightarrow> [] | Some ls \<Rightarrow> ls)
                                   @ (if fe then [] else [stats_header]) @ [stats_row ts g]))"
proof -
  let ?old = "case file_lines w q of None \<Rightarrow> [] | Some ls \<Rightarrow> ls"
  from assms obtain w1 w2 where
    o: "open_append q w = (Inr (), w1)" and
    h: "(if \<not> fe then write_line q stats_header else (\<lambda>w. (Inr (), w))) w1 = (Inr (), w2)" and
    r: "write_line q (stats_row ts g) w2 = (Inr u, w')"
    by (auto simp: write_gpu_row_def io_bind_def split: prod.splits sum.splits)
  from open_append_ok [OF o] have n: "nodes w q \<noteq> Some Dir" and n1: "nodes w1 q = Some (File ?old)"
    by auto
  have n2: "nodes w2 q = Some (File (?old @ (if fe then [] else [stats_header])))"
  proof (cases fe)
    case True
    with h n1 show ?thesis by simp
  next
    case False
    with h have "write_line q stats_header w1 = (Inr (), w2)" by simp
    from write_line_ok [OF this n1] False show ?thesis by simp
  qed
  from write_line_ok [OF r n2] n show ?thesis by simp
qed

lemma store_gpus_lines:
  assumes "q = path_join (path_join b s) (''gpu_stats_'' @ date @ ''.csv'')"
    and "store_gpus b s c q ts k fe gs w = (Inr u, w')"
  shows "(gs = [] \<longrightarrow> w' = w) \<and>
         (gs \<noteq> [] \<longrightarrow>
            nodes w q \<noteq> Some Dir \<and>
            nodes w' q = Some (File ((case file_lines w q of None \<Rightarrow> [] | Some ls \<Rightarrow> ls)
                                      @ (if fe then [] else [stats_header])
                                      @ map (stats_row ts) gs)))"
  using assms(2)
proof (induction gs arbitrary: k fe w)
  case Nil
  then show ?case by simp
next
  case (Cons g gs)
  from Cons.prems obtain w1 w2 where
    r: "write_gpu_row q ts fe g w = (Inr (), w1)" and
    p: "write_gpu_processes b s (c (Suc k)) ts g w1 = (Inr (), w2)" and
    l: "store_gpus b s c q ts (Suc k) True gs w2 = (Inr u, w')"
    by (auto simp: io_bind_def store_gpu_def split: prod.splits sum.splits)
  let ?old = "case file_lines w q of None \<Rightarrow> [] | Some ls \<Rightarrow> ls"
  from write_gpu_row_ok [OF r] have n: "nodes w q \<noteq> Some Dir"
    and n1: "nodes w1 q = Some (File (?old @ (if fe then [] else [stats_header]) @ [stats_row ts g]))"
    by auto
  have "nodes w2 q = nodes w1 q"
    using keeps_write_gpu_processes [of b s date "c (Suc k)" ts g] p assms(1)
    by (simp add: keeps_def)
  with n1 have n2: "nodes w2 q = Some (File (?old @ (if fe then [] else [stats_header]) @ [stats_row ts g]))"
    by simp
  show ?case
  proof (cases "gs = []")
    case True
    with Cons.IH [OF l] have "w' = w2" by simp
    with n n2 True show ?thesis by simp
  next
    case False
    with Cons.IH [OF l] have "nodes w' q =
        Some (File ((case file_lines w2 q of None \<Rightarrow> [] | Some ls \<Rightarrow> ls) @ map (stats_row ts) gs))"
      by simp
    with n n2 show ?thesis by (simp add: file_lines_def)
  qed
qed

lemma store_data_lines:
  assumes "store_data base clock d w = (Inr True, w')" and "server d = Some sn"
  shows "file_lines w' (stats_file base sn (clock 0)) =
           (case file_lines w (stats_file base sn (clock 0)) of
              None \<Rightarrow> if gpus d = [] then None
                       else Some (stats_header # map (stats_row (timestamp d)) (gpus d))
            | Some old \<Rightarrow> Some (old @ map (stats_row (timestamp d)) (gpus d)))"
proof -
  let ?q = "stats_file base sn (clock 0)"
  have q: "?q = path_join (path_join base sn) (''gpu_stats_'' @ clock 0 @ ''.csv'')"
    by (simp add: stats_file_def)
  from assms have body: "store_data_body base clock d w = (Inr True, w')"
    by (auto simp: store_data_def split: prod.splits sum.splits if_splits)
  with assms(2) have ne: "sn \<noteq> []"
    by (auto simp: store_data_body_def)
  from body assms(2) ne obtain w0 u where
    m: "makedirs (path_join base sn) w = (Inr (), w0)" and
    l: "store_gpus base sn clock ?q (timestamp d) 0 (path_exists ?q w0) (gpus d) w0 = (Inr u, w')"
    by (auto simp: store_data_body_def get_date_filename_def get_server_dir_def io_bind_def
          stats_file_def split: prod.splits sum.splits)
  have "path_join base sn \<noteq> ?q"
    using stats_file_not_dir [of "path_join base sn" "clock 0"] q by simp
  from keeps_makedirs [OF this] m have n0: "nodes w0 ?q = nodes w ?q"
    by (simp add: keeps_def)
  from store_gpus_lines [OF q l] have
    e: "gpus d = [] \<longrightarrow> w' = w0" and
    f: "gpus d \<noteq> [] \<longrightarrow> nodes w0 ?q \<noteq> Some Dir \<and>
          nodes w' ?q = Some (File ((case file_lines w0 ?q of None \<Rightarrow> [] | Some ls \<Rightarrow> ls)
             @ (if path_exists ?q w0 then [] else [stats_header])
             @ map (stats_row (timestamp d)) (gpus d)))"
    by auto
  show ?thesis
  proof (cases "gpus d = []")
    case True
    with e n0 show ?thesis
      by (auto simp: file_lines_def split: option.splits node.splits)
  next
    case False
    with f n0 show ?thesis
      by (auto simp: file_lines_def path_exists_def split: option.splits node.splits)
  qed
qed

subsection \<open>Files only grow\<close>

lemma grows_refl: "grows w w"
  by (auto simp: grows_def)

lemma grows_trans: "grows w w1 \<Longrightarrow> grows w1 w2 \<Longrightarrow> grows w w2"
  unfolding grows_def
  by (metis append.assoc)

lemma appends_return: "appends (\<lambda>w. (Inr a, w))"
  by (simp add: appends_def grows_refl)

lemma appends_bind: "appends m \<Longrightarrow> (\<And>a. appends (f a)) \<Longrightarrow> appends (io_bind m f)"
proof -
  assume m: "appends m" and f: "\<And>a. appends (f a)"
  show ?thesis
    unfolding appends_def
  proof (intro allI impI)
    fix w r w'
    assume b: "io_bind m f w = (r, w')"
    obtain r1 w1 where m1: "m w = (r1, w1)" by (cases "m w")
    with m have g1: "grows w w1" by (auto simp: appends_def)
    show "grows w w'"
    proof (cases r1)
      case (Inl e)
      with b m1 g1 show ?thesis by (simp add: io_bind_def)
    next
      case (Inr a)
      with b m1 have "f a w1 = (r, w')" by (simp add: io_bind_def)
      with f have "grows w1 w'" by (auto simp: appends_def)
      with g1 show ?thesis by (rule grows_trans)
    qed
  qed
qed

lemma appends_dep: "(\<And>v. appends (m v)) \<Longrightarrow> appends (\<lambda>w. m w w)"
  by (simp add: appends_def)

lemma appends_makedirs: "appends (makedirs p)"
  by (auto simp: appends_def grows_def makedirs_def next_fault_def
           split: prod.splits bool.splits option.splits node.splits list.splits)

lemma appends_open_append: "appends (open_append p)"
  by (auto simp: appends_def grows_def open_append_def next_fault_def
           split: prod.splits bool.splits option.splits node.splits list.splits)

lemma appends_write_line: "appends (write_line p l)"
  by (auto simp: appends_def grows_def write_line_def next_fault_def
           split: prod.splits bool.splits option.splits node.splits list.splits)

lemma appends_write_processes: "appends (write_processes p ts i pe ps)"
proof (induction ps arbitrary: pe)
  case Nil
  then show ?case by (simp add: appends_return)
next
  case (Cons x ps)
  have h: "appends (if \<not> pe then write_line p process_header else (\<lambda>w. (Inr (), w)))"
    by (simp add: appends_write_line appends_return)
  show ?case
    unfolding write_processes.simps
    by (intro appends_bind h appends_write_line Cons.IH)
qed

lemma appends_write_gpu_row: "appends (write_gpu_row f ts fe g)"
proof -
  have h: "appends (if \<not> fe then write_line f stats_header else (\<lambda>w. (Inr (), w)))"
    by (simp add: appends_write_line appends_return)
  show ?thesis
    unfolding write_gpu_row_def
    by (intro appends_bind appends_open_append appends_write_line h)
qed

lemma appends_write_gpu_processes: "appends (write_gpu_processes b s d ts g)"
proof (cases "processes g = []")
  case True
  then show ?thesis by (simp add: write_gpu_processes_def appends_return)
next
  case False
  have "appends (\<lambda>w. io_bind (open_append pf)
                         (\<lambda>_. write_processes pf ts (index g) (path_exists pf w) (processes g)) w)" for pf
  proof -
    have "appends (io_bind (open_append pf)
            (\<lambda>_. write_processes pf ts (index g) (path_exists pf v) (processes g)))" for v
      by (intro appends_bind appends_open_append appends_write_processes)
    then show ?thesis
      by (rule appends_dep [where m = "\<lambda>v. io_bind (open_append pf)
            (\<lambda>_. write_processes pf ts (index g) (path_exists pf v) (processes g))"])
  qed
  moreover have "appends (get_server_dir b s)"
    unfolding get_server_dir_def
    by (intro appends_bind appends_makedirs appends_return)
  ultimately show ?thesis
    using False unfolding write_gpu_processes_def Let_def
    by (simp add: appends_bind)
qed

lemma appends_store_gpu: "appends (store_gpu b s d f ts fe g)"
  unfolding store_gpu_def
  by (intro appends_bind appends_write_gpu_row appends_write_gpu_processes)

lemma store_gpus_append:
  "store_gpus b s c q ts k fe (xs @ ys) =
     io_bind (store_gpus b s c q ts k fe xs)
       (\<lambda>_. store_gpus b s c q ts (k + length xs) (fe \<or> xs \<noteq> []) ys)"
proof (induction xs arbitrary: k fe)
  case Nil
  show ?case by (simp add: io_bind_def)
next
  case (Cons x xs)
  show ?case
    by (simp add: Cons.IH io_bind_def fun_eq_iff split: prod.splits sum.splits)
qed

subsection \<open>Claims about the data store\<close>

text \<open>
  C6, as the code has it. Two calls of \<open>store_data\<close> for the same server that read
  the same date and both return \<open>True\<close>: when the statistics file did not exist
  before the first call and at least one of the two snapshots has a GPU, the file
  then holds the header once, followed by the rows of the first snapshot and the rows
  of the second, \<open>N + M\<close> in all; when both snapshots have no GPU no file is
  created; when the file existed, the rows are appended to what it held and no header
  is written. The same holds after the first call alone: a call writes the header
  only if the file does not exist when the call starts (and the snapshot has a GPU).
\<close>

theorem store_twice:
  assumes "store_data base clock1 d1 w = (Inr True, w1)"
    and "store_data base clock2 d2 w1 = (Inr True, w2)"
    and "server d1 = Some sn" and "server d2 = Some sn"
    and "clock1 0 = clock2 0"
  shows "file_lines w1 (stats_file base sn (clock1 0)) =
           (case file_lines w (stats_file base sn (clock1 0)) of
              None \<Rightarrow> if gpus d1 = [] then None
                       else Some (stats_header # map (stats_row (timestamp d1)) (gpus d1))
            | Some old \<Rightarrow> Some (old @ map (stats_row (timestamp d1)) (gpus d1)))
       \<and> file_lines w2 (stats_file base sn (clock1 0)) =
           (case file_lines w (stats_file base sn (clock1 0)) of
              None \<Rightarrow> if gpus d1 = [] \<and> gpus d2 = [] then None
                       else Some (stats_header # map (stats_row (timestamp d1)) (gpus d1)
                                    @ map (stats_row (timestamp d2)) (gpus d2))
            | Some old \<Rightarrow> Some (old @ map (stats_row (timestamp d1)) (gpus d1)
                                   @ map (stats_row (timestamp d2)) (gpus d2)))
       \<and> length (map (stats_row (timestamp d1)) (gpus d1) @ map (stats_row (timestamp d2)) (gpus d2))
           = length (gpus d1) + length (gpus d2)"
proof -
  let ?q = "stats_file base sn (clock1 0)"
  note a = store_data_lines [OF assms(1) assms(3)]
  have b: "file_lines w2 ?q =
           (case file_lines w1 ?q of
              None \<Rightarrow> if gpus d2 = [] then None
                       else Some (stats_header # map (stats_row (timestamp d2)) (gpus d2))
            | Some old \<Rightarrow> Some (old @ map (stats_row (timestamp d2)) (gpus d2)))"
    using store_data_lines [OF assms(2) assms(4)] assms(5) by simp
  show ?thesis
    using a b by (auto split: option.splits)
qed

theorem store_twice_witness:
  "file_lines
     (snd (store_data ''/data'' new_year (snapshot_of ''T2'' [test_gpu, test_gpu\<lparr>index := 1\<rparr>])
        (snd (store_data ''/data'' new_year (snapshot_of ''T1'' [test_gpu]) empty_disk))))
     (stats_file ''/data'' ''node1'' ''2024-01-01'')
   = Some [stats_header, stats_row ''T1'' test_gpu, stats_row ''T2'' test_gpu,
           stats_row ''T2'' (test_gpu\<lparr>index := 1\<rparr>)]"
proof -
  let ?d1 = "snapshot_of ''T1'' [test_gpu]"
  let ?d2 = "snapshot_of ''T2'' [test_gpu, test_gpu\<lparr>index := 1\<rparr>]"
  let ?w1 = "snd (store_data ''/data'' new_year ?d1 empty_disk)"
  let ?w2 = "snd (store_data ''/data'' new_year ?d2 ?w1)"
  have "fst (store_data ''/data'' new_year ?d1 empty_disk) = Inr True"
    by code_simp
  then have h1: "store_data ''/data'' new_year ?d1 empty_disk = (Inr True, ?w1)"
    by (simp add: prod_eq_iff)
  have "fst (store_data ''/data'' new_year ?d2 ?w1) = Inr True"
    by code_simp
  then have h2: "store_data ''/data'' new_year ?d2 ?w1 = (Inr True, ?w2)"
    by (simp add: prod_eq_iff)
  have s1: "server ?d1 = Some ''node1''" and s2: "server ?d2 = Some ''node1''"
    by (simp_all add: snapshot_of_def)
  have e: "file_lines empty_disk (stats_file ''/data'' ''node1'' (new_year 0)) = None"
    by (simp add: empty_disk_def file_lines_def)
  from store_twice [OF h1 h2 s1 s2 refl] e show ?thesis
    by (simp add: snapshot_of_def new_year_def)
qed

theorem store_twice_counterexample:
  "(case store_data ''/data'' new_year (snapshot_of ''T1'' []) empty_disk of
      (r1, w1) \<Rightarrow>
        (case store_data ''/data'' new_year (snapshot_of ''T2'' []) w1 of
           (r2, w2) \<Rightarrow> (r1, r2, file_lines w2 (stats_file ''/data'' ''node1'' ''2024-01-01''))))
   = (Inr True, Inr True, None)
   \<and> (case store_data ''/data'' new_year (snapshot_of ''T1'' [test_gpu])
            (empty_disk\<lparr>faults := [False, False, True]\<rparr>) of
        (r1, w1) \<Rightarrow>
          (case store_data ''/data'' new_year (snapshot_of ''T2'' [test_gpu]) w1 of
             (r2, w2) \<Rightarrow> (r1, r2, file_lines w2 (stats_file ''/data'' ''node1'' ''2024-01-01''))))
     = (Inr False, Inr True, Some [stats_row ''T2'' test_gpu])"
  by code_simp

text \<open>
  C10. For a snapshot whose server name is absent or empty, \<open>store_data\<close> returns
  \<open>False\<close> and leaves the file system as it was: no directory and no file is
  created, and no operation on the file system is attempted.
\<close>

theorem store_data_without_server:
  assumes "server d = None \<or> server d = Some []"
  shows "store_data base clock d w = (Inr False, w)"
  using assms by (auto simp: store_data_def store_data_body_def)

theorem store_data_without_server_witness:
  "store_data ''/data'' new_year (snapshot_of ''T1'' [test_gpu]\<lparr>server := Some []\<rparr>) empty_disk
     = (Inr False, empty_disk)"
  using store_data_without_server [of "snapshot_of ''T1'' [test_gpu]\<lparr>server := Some []\<rparr>"
      "''/data''" new_year empty_disk]
  by simp

text \<open>
  C9. \<open>store_data\<close> is not atomic. When the GPUs before \<open>g\<close> are stored without
  failure (storing the snapshot cut before \<open>g\<close> returns \<open>True\<close> and leaves the
  world \<open>w1\<close>) and the pass of the loop for \<open>g\<close> fails from there, the call
  returns \<open>False\<close>, every file holds at least the lines it held in \<open>w1\<close>, and
  the rows of the earlier GPUs are in the statistics file.
\<close>

theorem store_data_not_atomic:
  assumes "server d = Some sn" and "gpus d = pre @ g # post"
    and "store_data base clock (d\<lparr>gpus := pre\<rparr>) w = (Inr True, w1)"
    and "store_gpu base sn (clock (Suc (length pre))) (stats_file base sn (clock 0)) (timestamp d)
           (path_exists (stats_file base sn (clock 0)) w \<or> pre \<noteq> []) g w1 = (Inl e, w2)"
  shows "store_data base clock d w = (Inr False, w2)
       \<and> grows w1 w2
       \<and> (pre \<noteq> [] \<longrightarrow>
            (\<exists>old more. file_lines w2 (stats_file base sn (clock 0))
               = Some (old @ map (stats_row (timestamp d)) pre @ more)))"
proof -
  let ?q = "stats_file base sn (clock 0)"
  let ?ts = "timestamp d"
  from assms(3) have body: "store_data_body base clock (d\<lparr>gpus := pre\<rparr>) w = (Inr True, w1)"
    by (auto simp: store_data_def split: prod.splits sum.splits if_splits)
  with assms(1) have ne: "sn \<noteq> []"
    by (auto simp: store_data_body_def)
  from body assms(1) ne obtain w0 u where
    m: "makedirs (path_join base sn) w = (Inr (), w0)" and
    l: "store_gpus base sn clock ?q ?ts 0 (path_exists ?q w0) pre w0 = (Inr u, w1)"
    by (auto simp: store_data_body_def get_date_filename_def get_server_dir_def io_bind_def
          stats_file_def split: prod.splits sum.splits)
  have "path_join base sn \<noteq> ?q"
    using stats_file_not_dir [of "path_join base sn" "clock 0"] by (simp add: stats_file_def)
  from keeps_makedirs [OF this] m have pe: "path_exists ?q w0 = path_exists ?q w"
    by (simp add: keeps_def path_exists_def)
  have "store_gpus base sn clock ?q ?ts 0 (path_exists ?q w0) (pre @ g # post) w0 = (Inl e, w2)"
    using l assms(4) pe by (simp add: store_gpus_append io_bind_def)
  then have "store_data_body base clock d w = (Inl e, w2)"
    using assms(1,2) ne m
    by (simp add: store_data_body_def get_date_filename_def get_server_dir_def io_bind_def
          stats_file_def)
  with store_data_failure [of base clock d w e] have r: "store_data base clock d w = (Inr False, w2)"
    by simp
  have g: "grows w1 w2"
    using appends_store_gpu assms(4) unfolding appends_def by blast
  have f: "\<exists>old more. file_lines w2 ?q = Some (old @ map (stats_row ?ts) pre @ more)" if "pre \<noteq> []"
  proof -
    from store_data_lines [OF assms(3)] assms(1) that
    obtain old where "file_lines w1 ?q = Some (old @ map (stats_row ?ts) pre)"
      by (cases "file_lines w ?q") (auto intro: that [of "[stats_header]"])
    then have "nodes w1 ?q = Some (File (old @ map (stats_row ?ts) pre))"
      by (auto simp: file_lines_def split: option.splits node.splits)
    with g obtain more where "nodes w2 ?q = Some (File ((old @ map (stats_row ?ts) pre) @ more))"
      unfolding grows_def by blast
    then show ?thesis by (auto simp: file_lines_def)
  qed
  from r g f show ?thesis by blast
qed

theorem store_data_not_atomic_witness:
  "fst (store_data ''/data'' new_year (snapshot_of ''T1'' [test_gpu, test_gpu\<lparr>index := 1\<rparr>])
          (empty_disk\<lparr>faults := replicate 9 False @ [True]\<rparr>)) = Inr False
   \<and> file_lines
        (snd (store_data ''/data'' new_year (snapshot_of ''T1'' [test_gpu, test_gpu\<lparr>index := 1\<rparr>])
               (empty_disk\<lparr>faults := replicate 9 False @ [True]\<rparr>)))
        (stats_file ''/data'' ''node1'' ''2024-01-01'')
      = Some [stats_header, stats_row ''T1'' test_gpu]"
proof -
  let ?d = "snapshot_of ''T1'' [test_gpu, test_gpu\<lparr>index := 1\<rparr>]"
  let ?w = "empty_disk\<lparr>faults := replicate 9 False @ [True]\<rparr>"
  let ?w1 = "snd (store_data ''/data'' new_year (?d\<lparr>gpus := [test_gpu]\<rparr>) ?w)"
  let ?q = "stats_file ''/data'' ''node1'' (new_year 0)"
  let ?step = "store_gpu ''/data'' ''node1'' (new_year (Suc (length [test_gpu]))) ?q (timestamp ?d)
                 (path_exists ?q ?w \<or> [test_gpu] \<noteq> []) (test_gpu\<lparr>index := 1\<rparr>) ?w1"
  have s: "server ?d = Some ''node1''" and g: "gpus ?d = [test_gpu] @ test_gpu\<lparr>index := 1\<rparr> # []"
    by (simp_all add: snapshot_of_def)
  have "fst (store_data ''/data'' new_year (?d\<lparr>gpus := [test_gpu]\<rparr>) ?w) = Inr True"
    by code_simp
  then have h1: "store_data ''/data'' new_year (?d\<lparr>gpus := [test_gpu]\<rparr>) ?w = (Inr True, ?w1)"
    by (simp add: prod_eq_iff)
  have "fst ?step = Inl OSError"
    by code_simp
  then have h2: "?step = (Inl OSError, snd ?step)"
    by (simp add: prod_eq_iff)
  have l: "file_lines (snd (store_data ''/data'' new_year ?d ?w))
             (stats_file ''/data'' ''node1'' ''2024-01-01'')
           = Some [stats_header, stats_row ''T1'' test_gpu]"
    by code_simp
  from store_data_not_atomic [OF s g h1 h2] l show ?thesis
    by simp
qed



section \<open>Exceptions inside a pass of the loop\<close>

text \<open>
  C8. At any point of a run (after \<open>n\<close> passes that did not leave the loop), an
  exception raised by the collection, for instance by a failed conversion while
  parsing, by the callback or by the sleep, with or without a callback, ends the loop
  in that very pass: it is not the give-up exit, \<open>retry_count\<close> is not incremented
  (it keeps its value when the collection raises, and is 0 after a successful
  collection), and \<open>disconnect\<close> is still called, once, as the last event.
\<close>

theorem exception_ends_loop:
  assumes "passes H cbo iv m n 0 w = Some (rc, w1, evs1)" and "n < fuel"
  shows "(collect H w1 = (Inl e, w2) \<longrightarrow>
            start_collection H cbo iv m fuel w =
              Some (handler e, rc, disconnect H w2, evs1 @ [ECollect Raised, EDisconnect]))
       \<and> (cbo = Some cb \<and> collect H w1 = (Inr (Some d), w') \<and> cb d w' = (Inl e, w2) \<longrightarrow>
            start_collection H cbo iv m fuel w =
              Some (handler e, 0, disconnect H w2,
                    evs1 @ [ECollect Succeeded, ECallback, EDisconnect]))
       \<and> (cbo = Some cb \<and> collect H w1 = (Inr (Some d), w') \<and> cb d w' = (Inr b, w'')
            \<and> sleep H iv w'' = (Inl e, w2) \<longrightarrow>
            start_collection H cbo iv m fuel w =
              Some (handler e, 0, disconnect H w2,
                    evs1 @ [ECollect Succeeded, ECallback, ESleep iv, EDisconnect]))
       \<and> (cbo = None \<and> collect H w1 = (Inr (Some d), w') \<and> sleep H iv w' = (Inl e, w2) \<longrightarrow>
            start_collection H cbo iv m fuel w =
              Some (handler e, 0, disconnect H w2,
                    evs1 @ [ECollect Succeeded, ESleep iv, EDisconnect]))
       \<and> handler e \<noteq> GiveUp
       \<and> EDisconnect \<notin> set evs1"
proof -
  have split: "collection_loop H cbo iv m fuel 0 w =
      (case collection_loop H cbo iv m (Suc (fuel - Suc n)) rc w1 of
         None \<Rightarrow> None
       | Some (x, r, w', evs) \<Rightarrow> Some (x, r, w', evs1 @ evs))"
    using passes_then_loop [OF assms(1), of "Suc (fuel - Suc n)"] assms(2) by simp
  have nd: "EDisconnect \<notin> set evs1"
    using passes_no_disconnect [OF assms(1)] .
  have g: "handler e \<noteq> GiveUp"
    by (cases e) auto
  have a: "start_collection H cbo iv m fuel w =
             Some (handler e, rc, disconnect H w2, evs1 @ [ECollect Raised, EDisconnect])"
    if "collect H w1 = (Inl e, w2)"
    using that by (simp add: split start_collection_def poll_cycle_def)
  have b: "start_collection H cbo iv m fuel w =
             Some (handler e, 0, disconnect H w2,
                   evs1 @ [ECollect Succeeded, ECallback, EDisconnect])"
    if "cbo = Some cb \<and> collect H w1 = (Inr (Some d), w') \<and> cb d w' = (Inl e, w2)"
  proof -
    from that have "poll_cycle H cbo iv m rc w1 = Break (handler e) 0 w2 [ECollect Succeeded, ECallback]"
      by (simp add: poll_cycle_def)
    then show ?thesis
      by (simp add: split start_collection_def)
  qed
  have c: "start_collection H cbo iv m fuel w =
             Some (handler e, 0, disconnect H w2,
                   evs1 @ [ECollect Succeeded, ECallback, ESleep iv, EDisconnect])"
    if "cbo = Some cb \<and> collect H w1 = (Inr (Some d), w') \<and> cb d w' = (Inr b, w'')
          \<and> sleep H iv w'' = (Inl e, w2)"
  proof -
    from that have "poll_cycle H cbo iv m rc w1
        = Break (handler e) 0 w2 [ECollect Succeeded, ECallback, ESleep iv]"
      by (simp add: poll_cycle_def)
    then show ?thesis
      by (simp add: split start_collection_def)
  qed
  have d: "start_collection H cbo iv m fuel w =
             Some (handler e, 0, disconnect H w2,
                   evs1 @ [ECollect Succeeded, ESleep iv, EDisconnect])"
    if "cbo = None \<and> collect H w1 = (Inr (Some d), w') \<and> sleep H iv w' = (Inl e, w2)"
  proof -
    from that have "poll_cycle H cbo iv m rc w1
        = Break (handler e) 0 w2 [ECollect Succeeded, ESleep iv]"
      by (simp add: poll_cycle_def)
    then show ?thesis
      by (simp add: split start_collection_def)
  qed
  from a b c d nd g show ?thesis by blast
qed

theorem exception_ends_loop_witness:
  "start_collection (collector test_config) (Some (store_callback ''/data'')) 5 3 1
     (test_world fan_not_available ''0, GPU-abc'' '''' [])
   = Some (Errored ValueError, 0,
       disconnect (collector test_config)
         (snd (collect (collector test_config)
            (test_world fan_not_available ''0, GPU-abc'' '''' []))),
       [ECollect Raised, EDisconnect])
   \<and> start_collection (collector test_config) (Some (\<lambda>d w. (Inl (Exception ''sink''), w))) 5 3 1
       (test_world ''0, TestGPU, 10, 5, 8000, 2000, 6000, 45, 20.5, 70, 30'' ''0, GPU-abc'' '''' [])
     = Some (Errored (Exception ''sink''), 0,
         disconnect (collector test_config)
           (snd (collect (collector test_config)
              (test_world ''0, TestGPU, 10, 5, 8000, 2000, 6000, 45, 20.5, 70, 30''
                 ''0, GPU-abc'' '''' []))),
         [ECollect Succeeded, ECallback, EDisconnect])
   \<and> map_option (\<lambda>(x, rc, w, evs). (x, rc, evs))
       (start_collection (collector test_config) (Some (store_callback ''/data'')) (- 1) 3 1
         (test_world ''0, TestGPU, 10, 5, 8000, 2000, 6000, 45, 20.5, 70, 30'' ''0, GPU-abc'' '''' []))
     = Some (Errored ValueError, 0, [ECollect Succeeded, ECallback, ESleep (- 1), EDisconnect])
   \<and> map_option (\<lambda>(x, rc, w, evs). (x, rc, evs))
       (start_collection (collector test_config) None (- 1) 3 1
         (test_world ''0, TestGPU, 10, 5, 8000, 2000, 6000, 45, 20.5, 70, 30'' ''0, GPU-abc'' '''' []))
     = Some (Errored ValueError, 0, [ECollect Succeeded, ESleep (- 1), EDisconnect])"
proof (intro conjI)
  let ?H = "collector test_config"
  let ?store = "store_callback ''/data''"
  let ?sink = "\<lambda>(d::snapshot) (w::world). (Inl (Exception ''sink'') :: exn + bool, w)"
  let ?bad = "test_world fan_not_available ''0, GPU-abc'' '''' []"
  let ?good = "test_world ''0, TestGPU, 10, 5, 8000, 2000, 6000, 45, 20.5, 70, 30''
                 ''0, GPU-abc'' '''' []"
  let ?d = "snapshot_of ''2024-01-01T10:00:00'' [test_gpu\<lparr>processes := []\<rparr>]"
  have p: "passes ?H cbo iv 3 0 0 w = Some (0, w, [])" for cbo iv w
    by simp
  have "fst (collect ?H ?bad) = Inl ValueError"
    by code_simp
  then have c1: "collect ?H ?bad = (Inl ValueError, snd (collect ?H ?bad))"
    by (simp add: prod_eq_iff)
  from exception_ends_loop [where fuel = 1 and H = ?H and w = ?bad and cbo = "Some ?store"
      and e = ValueError and ?w2.0 = "snd (collect ?H ?bad)" and iv = 5
      and m = 3 and n = 0 and rc = 0, OF p] c1
  show "start_collection ?H (Some ?store) 5 3 1 ?bad
        = Some (Errored ValueError, 0, disconnect ?H (snd (collect ?H ?bad)),
                [ECollect Raised, EDisconnect])"
    by simp
  have "fst (collect ?H ?good) = Inr (Some ?d)"
    by code_simp
  then have c2: "collect ?H ?good = (Inr (Some ?d), snd (collect ?H ?good))"
    by (simp add: prod_eq_iff)
  from exception_ends_loop [where fuel = 1 and H = ?H and w = ?good and cbo = "Some ?sink"
      and cb = ?sink and d = ?d and w' = "snd (collect ?H ?good)" and e = "Exception ''sink''"
      and ?w2.0 = "snd (collect ?H ?good)" and iv = 5
      and m = 3 and n = 0 and rc = 0, OF p] c2
  show "start_collection ?H (Some ?sink) 5 3 1 ?good
        = Some (Errored (Exception ''sink''), 0, disconnect ?H (snd (collect ?H ?good)),
                [ECollect Succeeded, ECallback, EDisconnect])"
    by simp
  let ?w' = "snd (collect ?H ?good)"
  have "fst (?store ?d ?w') = Inr True"
    by code_simp
  then have c3: "?store ?d ?w' = (Inr True, snd (?store ?d ?w'))"
    by (simp add: prod_eq_iff)
  have s: "sleep ?H (- 1) v = (Inl ValueError, v)" for v
    by (simp add: collector_def max_sleep_seconds_def)
  from exception_ends_loop [where fuel = 1 and H = ?H and w = ?good and cbo = "Some ?store"
      and cb = ?store and d = ?d and w' = ?w' and e = ValueError and b = True
      and w'' = "snd (?store ?d ?w')" and ?w2.0 = "snd (?store ?d ?w')" and iv = "- 1"
      and m = 3 and n = 0 and rc = 0, OF p] c2 c3 s
  show "map_option (\<lambda>(x, rc, w, evs). (x, rc, evs))
          (start_collection ?H (Some ?store) (- 1) 3 1 ?good)
        = Some (Errored ValueError, 0, [ECollect Succeeded, ECallback, ESleep (- 1), EDisconnect])"
    by simp
  from exception_ends_loop [where fuel = 1 and H = ?H and w = ?good and cbo = None
      and d = ?d and w' = ?w' and e = ValueError and ?w2.0 = ?w' and iv = "- 1"
      and m = 3 and n = 0 and rc = 0, OF p] c2 s
  show "map_option (\<lambda>(x, rc, w, evs). (x, rc, evs))
          (start_collection ?H None (- 1) 3 1 ?good)
        = Some (Errored ValueError, 0, [ECollect Succeeded, ESleep (- 1), EDisconnect])"
    by simp
qed

section \<open>Properties of the parser\<close>

subsection \<open>Splitting and blank lines\<close>

lemma split_on_absent: "c \<notin> set s \<Longrightarrow> split_on c s = [s]"
  by (induction s) auto

lemma split_on_nonempty: "split_on c s \<noteq> []"
  by (induction s) (auto split: list.splits)

lemma strip_empty_spaces: "py_strip s = [] \<Longrightarrow> \<forall>c \<in> set s. is_space c"
proof -
  assume "py_strip s = []"
  then have "dropWhile is_space (rev (dropWhile is_space s)) = []"
    by (simp add: py_strip_def)
  then have a: "\<forall>c \<in> set (dropWhile is_space s). is_space c"
    by (simp add: dropWhile_eq_Nil_conv)
  have "dropWhile is_space s = []"
  proof (rule ccontr)
    assume n: "dropWhile is_space s \<noteq> []"
    then have "\<not> is_space (hd (dropWhile is_space s))"
      by (rule hd_dropWhile)
    moreover have "hd (dropWhile is_space s) \<in> set (dropWhile is_space s)"
      using n by simp
    ultimately show False using a by blast
  qed
  then show ?thesis by (simp add: dropWhile_eq_Nil_conv)
qed

lemma blank_one_field: "py_strip line = [] \<Longrightarrow> length (split_fields line) = 1"
proof -
  assume "py_strip line = []"
  then have "\<forall>c \<in> set line. is_space c" by (rule strip_empty_spaces)
  moreover have "\<not> is_space CHR '',''" by (simp add: is_space_def)
  ultimately have "CHR '','' \<notin> set line" by blast
  then show ?thesis by (simp add: split_fields_def split_on_absent)
qed

subsection \<open>The GPU table\<close>

lemma those_map_Some:
  "list_all (\<lambda>s. f s \<noteq> None) xs \<Longrightarrow> those (map f xs) = Some (map (\<lambda>s. the (f s)) xs)"
  by (induction xs) auto

lemma gpu_of_parts_ok:
  assumes "length parts = 11" and "numbers_convert parts"
  shows "\<exists>g. gpu_of_parts m parts = Inr g
           \<and> uuid g = (case m (parts ! 0) of None \<Rightarrow> ''unknown'' | Some u \<Rightarrow> u)
           \<and> name g = parts ! 1 \<and> processes g = []"
proof -
  from assms(1) obtain p0 p1 p2 p3 p4 p5 p6 p7 p8 p9 p10 where
    parts: "parts = [p0, p1, p2, p3, p4, p5, p6, p7, p8, p9, p10]"
    by (auto simp: length_Suc_conv eval_nat_numeral)
  from assms(2) obtain i where i: "py_int p0 = Some i"
    by (auto simp: numbers_convert_def parts)
  from assms(2) have "those (map py_float [p2, p3, p4, p5, p6, p7, p8, p9])
      = Some (map (\<lambda>s. the (py_float s)) [p2, p3, p4, p5, p6, p7, p8, p9])"
    using those_map_Some [of py_float "[p2, p3, p4, p5, p6, p7, p8, p9]"]
    by (simp add: numbers_convert_def parts)
  then have t: "those (map py_float (take 8 (drop 2 parts)))
      = Some [the (py_float p2), the (py_float p3), the (py_float p4), the (py_float p5),
              the (py_float p6), the (py_float p7), the (py_float p8), the (py_float p9)]"
    by (simp add: parts)
  from assms(2) have "\<exists>f. (if p10 \<noteq> [] then py_float p10 else Some (PyInt 0)) = Some f"
    by (cases "p10 = []") (auto simp: numbers_convert_def parts)
  then obtain f where f: "(if p10 \<noteq> [] then py_float p10 else Some (PyInt 0)) = Some f"
    by blast
  show ?thesis
    unfolding gpu_of_parts_def Let_def t
    using i f by (auto simp: parts)
qed

lemma parse_gpu_lines_ok:
  "list_all stats_line_ok lines \<Longrightarrow>
   parse_gpu_lines m lines acc = Inr (acc @ map (gpu_of_line m) (filter gpu_row lines))"
proof (induction lines arbitrary: acc)
  case Nil
  then show ?case by simp
next
  case (Cons l lines)
  then have ok: "stats_line_ok l" and rest: "list_all stats_line_ok lines" by simp_all
  note IH = Cons.IH [OF rest]
  show ?case
  proof (cases "py_strip l = []")
    case True
    then have "length (split_fields l) = 1" by (rule blank_one_field)
    with True IH show ?thesis by (simp add: gpu_row_def)
  next
    case False
    show ?thesis
    proof (cases "length (split_fields l) < 11")
      case True
      with False IH show ?thesis by (simp add: gpu_row_def Let_def)
    next
      case long: False
      with ok have len: "length (split_fields l) = 11" and conv: "numbers_convert (split_fields l)"
        by (auto simp: stats_line_ok_def)
      from gpu_of_parts_ok [OF len conv, of m] obtain g where
        g: "gpu_of_parts m (split_fields l) = Inr g" by blast
      then have "gpu_of_line m l = g" by (simp add: gpu_of_line_def)
      with False len g IH show ?thesis by (simp add: gpu_row_def Let_def)
    qed
  qed
qed

lemma parse_gpu_lines_skip:
  "parse_gpu_lines m (filter (\<lambda>l. \<not> length (split_fields l) < 11) lines) acc
     = parse_gpu_lines m lines acc"
proof (induction lines arbitrary: acc)
  case Nil
  then show ?case by simp
next
  case (Cons l lines)
  show ?case
  proof (cases "py_strip l = []")
    case True
    then have "length (split_fields l) = 1" by (rule blank_one_field)
    with True Cons.IH show ?thesis by simp
  next
    case False
    with Cons.IH show ?thesis
      by (auto simp: Let_def split: sum.splits)
  qed
qed


subsection \<open>The process table\<close>

lemma add_process_length: "length (add_process p u gs) = length gs"
  by (induction gs) auto

lemma add_process_uuid: "map uuid (add_process p u gs) = map uuid gs"
  by (induction gs) auto

lemma add_process_clear:
  "map (\<lambda>g. g\<lparr>processes := []\<rparr>) (add_process p u gs) = map (\<lambda>g. g\<lparr>processes := []\<rparr>) gs"
  by (induction gs) auto

lemma add_process_nth:
  "i < length gs \<Longrightarrow>
   processes (add_process p u gs ! i)
     = processes (gs ! i) @ (if uuid (gs ! i) = u \<and> (\<forall>j<i. uuid (gs ! j) \<noteq> u) then [p] else [])"
proof (induction gs arbitrary: i)
  case Nil
  then show ?case by simp
next
  case (Cons g gs)
  show ?case
  proof (cases i)
    case 0
    then show ?thesis by simp
  next
    case (Suc k)
    with Cons.prems have k: "k < length gs" by simp
    have all: "(\<forall>j<Suc k. uuid ((g # gs) ! j) \<noteq> u) = (uuid g \<noteq> u \<and> (\<forall>j<k. uuid (gs ! j) \<noteq> u))"
      by (auto simp: less_Suc_eq_0_disj)
    show ?thesis
    proof (cases "uuid g = u")
      case True
      with Suc all show ?thesis by simp
    next
      case False
      with Suc all Cons.IH [OF k] show ?thesis by simp
    qed
  qed
qed

lemma process_of_parts_ok:
  assumes "length parts = 4" and "py_int (parts ! 0) \<noteq> None" and "py_float (parts ! 3) \<noteq> None"
  shows "\<exists>p. process_of_parts parts = Inr (p, parts ! 2)"
  using assms by (auto simp: process_of_parts_def)

lemma parse_process_lines_ok:
  "list_all process_line_ok lines \<Longrightarrow>
   \<exists>gs'. parse_process_lines lines gs = Inr gs' \<and> length gs' = length gs
      \<and> map uuid gs' = map uuid gs
      \<and> map (\<lambda>g. g\<lparr>processes := []\<rparr>) gs' = map (\<lambda>g. g\<lparr>processes := []\<rparr>) gs
      \<and> (\<forall>i<length gs. processes (gs' ! i)
            = processes (gs ! i)
              @ (if \<forall>j<i. uuid (gs ! j) \<noteq> uuid (gs ! i)
                 then map process_of_line (filter (process_row_for (uuid (gs ! i))) lines)
                 else []))"
proof (induction lines arbitrary: gs)
  case Nil
  then show ?case by simp
next
  case (Cons l lines)
  then have ok: "process_line_ok l" and rest: "list_all process_line_ok lines" by simp_all
  show ?case
  proof (cases "length (split_fields l) = 4")
    case False
    with ok have short: "length (split_fields l) < 4" by (auto simp: process_line_ok_def)
    then have skip: "parse_process_lines (l # lines) gs = parse_process_lines lines gs"
      by (simp add: Let_def)
    from short have flt: "filter (process_row_for v) (l # lines) = filter (process_row_for v) lines" for v
      by (simp add: process_row_for_def)
    show ?thesis
      unfolding skip flt by (rule Cons.IH [OF rest])
  next
    case True
    with ok have conv: "py_int (split_fields l ! 0) \<noteq> None" "py_float (split_fields l ! 3) \<noteq> None"
      by (auto simp: process_line_ok_def)
    from process_of_parts_ok [OF True conv] obtain p where
      p: "process_of_parts (split_fields l) = Inr (p, split_fields l ! 2)" by blast
    then have pl: "process_of_line l = p" by (simp add: process_of_line_def)
    let ?u = "uuid_of_line l"
    let ?gs1 = "add_process p ?u gs"
    have nb: "py_strip l \<noteq> []"
      using blank_one_field [of l] True by auto
    have step: "parse_process_lines (l # lines) gs = parse_process_lines lines ?gs1"
      using nb True p by (simp add: Let_def uuid_of_line_def)
    from Cons.IH [OF rest, of ?gs1] obtain gs' where
      r: "parse_process_lines lines ?gs1 = Inr gs'" and len: "length gs' = length ?gs1"
      and uu: "map uuid gs' = map uuid ?gs1"
      and cl: "map (\<lambda>g. g\<lparr>processes := []\<rparr>) gs' = map (\<lambda>g. g\<lparr>processes := []\<rparr>) ?gs1"
      and pr: "\<forall>i<length ?gs1. processes (gs' ! i)
            = processes (?gs1 ! i)
              @ (if \<forall>j<i. uuid (?gs1 ! j) \<noteq> uuid (?gs1 ! i)
                 then map process_of_line (filter (process_row_for (uuid (?gs1 ! i))) lines)
                 else [])"
      by blast
    have u1: "uuid (?gs1 ! j) = uuid (gs ! j)" if "j < length gs" for j
      using that add_process_uuid [of p ?u gs] add_process_length [of p ?u gs]
      by (metis nth_map)
    have "processes (gs' ! i)
            = processes (gs ! i)
              @ (if \<forall>j<i. uuid (gs ! j) \<noteq> uuid (gs ! i)
                 then map process_of_line (filter (process_row_for (uuid (gs ! i))) (l # lines))
                 else [])" if i: "i < length gs" for i
    proof -
      from i have "i < length ?gs1" by (simp add: add_process_length)
      with pr have a: "processes (gs' ! i)
            = processes (?gs1 ! i)
              @ (if \<forall>j<i. uuid (?gs1 ! j) \<noteq> uuid (?gs1 ! i)
                 then map process_of_line (filter (process_row_for (uuid (?gs1 ! i))) lines)
                 else [])" by blast
      have c: "uuid (?gs1 ! i) = uuid (gs ! i)" using u1 i by simp
      have b: "(\<forall>j<i. uuid (?gs1 ! j) \<noteq> uuid (gs ! i)) = (\<forall>j<i. uuid (gs ! j) \<noteq> uuid (gs ! i))"
        using u1 i by auto
      show ?thesis
        unfolding a c b add_process_nth [OF i]
        using True pl by (auto simp: process_row_for_def)
    qed
    with r len uu cl step show ?thesis
      by (simp add: add_process_length add_process_uuid add_process_clear)
  qed
qed

lemma parse_uuid_lines_ok:
  "list_all uuid_line_ok lines \<Longrightarrow> \<exists>m'. parse_uuid_lines lines m = Inr m'"
proof (induction lines arbitrary: m)
  case Nil
  then show ?case by simp
next
  case (Cons l lines)
  then show ?case
    by (auto simp: Let_def uuid_line_ok_def)
qed

subsection \<open>Lines that make the parser raise\<close>

lemma those_map_None:
  "\<not> list_all (\<lambda>s. f s \<noteq> None) xs \<Longrightarrow> those (map f xs) = None"
  by (induction xs) (auto split: option.splits)

lemma gpu_of_parts_raises: "gpu_of_parts m parts = Inl e \<Longrightarrow> e = ValueError"
  unfolding gpu_of_parts_def Let_def
  by (simp split: if_splits prod.splits option.splits list.splits)

lemma gpu_of_parts_bad:
  assumes "length parts = 11" and "\<not> numbers_convert parts"
  shows "gpu_of_parts m parts = Inl ValueError"
proof -
  from assms(2) consider
    (idx) "py_int (parts ! 0) = None"
    | (num) "those (map py_float (take 8 (drop 2 parts))) = None"
    | (fan) "(if parts ! 10 \<noteq> [] then py_float (parts ! 10) else Some (PyInt 0)) = None"
    using those_map_None [of py_float "take 8 (drop 2 parts)"]
    by (auto simp: numbers_convert_def)
  then show ?thesis
  proof cases
    case idx
    with assms(1) show ?thesis
      unfolding gpu_of_parts_def Let_def by simp
  next
    case num
    with assms(1) show ?thesis
      unfolding gpu_of_parts_def Let_def by (simp split: option.splits)
  next
    case fan
    with assms(1) show ?thesis
      unfolding gpu_of_parts_def Let_def by (simp split: option.splits list.splits)
  qed
qed

lemma parse_gpu_lines_raises: "parse_gpu_lines m lines acc = Inl e \<Longrightarrow> e = ValueError"
proof (induction lines arbitrary: acc)
  case Nil
  then show ?case by simp
next
  case (Cons l lines)
  then show ?case
    by (auto simp: Let_def split: if_splits sum.splits dest: gpu_of_parts_raises)
qed

lemma parse_gpu_lines_bad:
  assumes "line \<in> set lines" and "gpu_row line" and "\<not> numbers_convert (split_fields line)"
  shows "parse_gpu_lines m lines acc = Inl ValueError"
  using assms(1)
proof (induction lines arbitrary: acc)
  case Nil
  then show ?case by simp
next
  case (Cons l lines)
  show ?case
  proof (cases "l = line")
    case True
    from assms(2) have len: "length (split_fields line) = 11" by (simp add: gpu_row_def)
    then have nb: "py_strip line \<noteq> []" using blank_one_field [of line] by auto
    from gpu_of_parts_bad [OF len assms(3), of m] True nb len show ?thesis
      by (simp add: Let_def)
  next
    case False
    with Cons.prems have mem: "line \<in> set lines" by simp
    show ?thesis
    proof (cases "parse_gpu_lines m (l # lines) acc")
      case (Inl e)
      then show ?thesis using parse_gpu_lines_raises by blast
    next
      case (Inr gs)
      then show ?thesis
        using Cons.IH [OF mem]
        by (auto simp: Let_def split: if_splits sum.splits)
    qed
  qed
qed

lemma process_of_parts_raises: "process_of_parts parts = Inl e \<Longrightarrow> e = ValueError"
  by (auto simp: process_of_parts_def split: if_splits option.splits)

lemma parse_process_lines_raises: "parse_process_lines lines gs = Inl e \<Longrightarrow> e = ValueError"
proof (induction lines arbitrary: gs)
  case Nil
  then show ?case by simp
next
  case (Cons l lines)
  then show ?case
    by (auto simp: Let_def split: if_splits sum.splits dest: process_of_parts_raises)
qed

lemma parse_process_lines_bad:
  assumes "line \<in> set lines" and "length (split_fields line) = 4"
    and "py_int (split_fields line ! 0) = None \<or> py_float (split_fields line ! 3) = None"
  shows "parse_process_lines lines gs = Inl ValueError"
  using assms(1)
proof (induction lines arbitrary: gs)
  case Nil
  then show ?case by simp
next
  case (Cons l lines)
  show ?case
  proof (cases "l = line")
    case True
    have nb: "py_strip line \<noteq> []" using blank_one_field [of line] assms(2) by auto
    have "process_of_parts (split_fields line) = Inl ValueError"
      using assms(2,3) by (auto simp: process_of_parts_def split: option.splits)
    with True nb assms(2) show ?thesis
      by (simp add: Let_def)
  next
    case False
    with Cons.prems have mem: "line \<in> set lines" by simp
    show ?thesis
    proof (cases "parse_process_lines (l # lines) gs")
      case (Inl e)
      then show ?thesis using parse_process_lines_raises by blast
    next
      case (Inr gs')
      then show ?thesis
        using Cons.IH [OF mem]
        by (auto simp: Let_def split: if_splits sum.splits)
    qed
  qed
qed

lemma parse_uuid_lines_raises: "parse_uuid_lines lines m = Inl e \<Longrightarrow> e = ValueError"
proof (induction lines arbitrary: m)
  case Nil
  then show ?case by simp
next
  case (Cons l lines)
  then show ?case
    by (auto simp: Let_def split: if_splits)
qed

lemma parse_gpus_bad_process:
  assumes "line \<in> set (lines_of process_output)" and "length (split_fields line) = 4"
    and "py_int (split_fields line ! 0) = None \<or> py_float (split_fields line ! 3) = None"
  shows "parse_gpus gpu_stats_output gpu_uuid_output process_output = Inl ValueError"
proof (cases "parse_uuid_lines (lines_of gpu_uuid_output) Map.empty")
  case (Inl e)
  with parse_uuid_lines_raises [OF Inl] show ?thesis by (simp add: parse_gpus_def)
next
  case m: (Inr m)
  show ?thesis
  proof (cases "parse_gpu_lines m (lines_of gpu_stats_output) []")
    case (Inl e)
    with parse_gpu_lines_raises [OF Inl] m show ?thesis by (simp add: parse_gpus_def)
  next
    case (Inr gs)
    with m parse_process_lines_bad [OF assms, of gs] show ?thesis
      by (simp add: parse_gpus_def)
  qed
qed

subsection \<open>Claims about the parser\<close>

text \<open>
  C5, as the code has it. When every line of the GPU table with at least eleven
  fields has exactly eleven and its numbers convert, the loop returns one record for
  each line of eleven fields, in the order of the lines: the record its body builds
  from the line, whose UUID is the entry of the UUID table for the index field, or
  \<open>unknown\<close> when there is none. Lines with fewer than eleven fields are skipped:
  removing them changes nothing. And when some line of eleven fields has a number
  that does not convert, the loop raises \<open>ValueError\<close> and returns no record.
\<close>

theorem stats_lines_parsed:
  "(list_all stats_line_ok (lines_of gpu_stats_output) \<longrightarrow>
      parse_gpu_lines uuid_map (lines_of gpu_stats_output) []
        = Inr (map (gpu_of_line uuid_map) (filter gpu_row (lines_of gpu_stats_output)))
      \<and> (\<forall>line \<in> set (lines_of gpu_stats_output).
           gpu_row line \<longrightarrow>
             gpu_of_parts uuid_map (split_fields line) = Inr (gpu_of_line uuid_map line)
             \<and> uuid (gpu_of_line uuid_map line)
                 = (case uuid_map (split_fields line ! 0) of None \<Rightarrow> ''unknown'' | Some u \<Rightarrow> u))
      \<and> parse_gpu_lines uuid_map
           (filter (\<lambda>line. \<not> length (split_fields line) < 11) (lines_of gpu_stats_output)) []
          = parse_gpu_lines uuid_map (lines_of gpu_stats_output) [])
   \<and> ((\<exists>line \<in> set (lines_of gpu_stats_output).
          gpu_row line \<and> \<not> numbers_convert (split_fields line)) \<longrightarrow>
        parse_gpu_lines uuid_map (lines_of gpu_stats_output) [] = Inl ValueError)"
proof (intro conjI ballI impI)
  assume ok: "list_all stats_line_ok (lines_of gpu_stats_output)"
  show "parse_gpu_lines uuid_map (lines_of gpu_stats_output) []
          = Inr (map (gpu_of_line uuid_map) (filter gpu_row (lines_of gpu_stats_output)))"
    using parse_gpu_lines_ok [OF ok, of uuid_map "[]"] by simp
next
  fix line
  assume ok: "list_all stats_line_ok (lines_of gpu_stats_output)"
    and "line \<in> set (lines_of gpu_stats_output)" and r: "gpu_row line"
  then have "stats_line_ok line" by (simp add: list_all_iff)
  with r have len: "length (split_fields line) = 11" and conv: "numbers_convert (split_fields line)"
    by (auto simp: stats_line_ok_def gpu_row_def)
  from gpu_of_parts_ok [OF len conv, of uuid_map] obtain g where
    g: "gpu_of_parts uuid_map (split_fields line) = Inr g"
    and u: "uuid g = (case uuid_map (split_fields line ! 0) of None \<Rightarrow> ''unknown'' | Some u \<Rightarrow> u)"
    by blast
  from g have e: "gpu_of_line uuid_map line = g" by (simp add: gpu_of_line_def)
  from g e show "gpu_of_parts uuid_map (split_fields line) = Inr (gpu_of_line uuid_map line)"
    by simp
  from u e show "uuid (gpu_of_line uuid_map line)
      = (case uuid_map (split_fields line ! 0) of None \<Rightarrow> ''unknown'' | Some u \<Rightarrow> u)"
    by simp
next
  show "parse_gpu_lines uuid_map
          (filter (\<lambda>line. \<not> length (split_fields line) < 11) (lines_of gpu_stats_output)) []
        = parse_gpu_lines uuid_map (lines_of gpu_stats_output) []"
    by (rule parse_gpu_lines_skip)
next
  assume "\<exists>line \<in> set (lines_of gpu_stats_output).
            gpu_row line \<and> \<not> numbers_convert (split_fields line)"
  then show "parse_gpu_lines uuid_map (lines_of gpu_stats_output) [] = Inl ValueError"
    using parse_gpu_lines_bad by blast
qed

theorem stats_lines_parsed_witness:
  "map_sum id (map (\<lambda>g. (index g, name g, uuid g, fan_speed g)))
     (parse_gpu_lines [''0'' \<mapsto> ''GPU-abc''] (lines_of three_lines) [])
   = Inr [(0, ''TestGPU'', ''GPU-abc'', PyFloat ''30''), (2, ''Other'', ''unknown'', PyInt 0)]
   \<and> parse_gpu_lines [''0'' \<mapsto> ''GPU-abc'']
       (lines_of (three_lines @ [CHR 0x0A] @ fan_not_available)) []
     = Inl ValueError"
proof (intro conjI)
  let ?m = "[''0'' \<mapsto> ''GPU-abc'']"
  have h: "list_all stats_line_ok (lines_of three_lines)"
    by code_simp
  from stats_lines_parsed [of three_lines ?m] h
  have "parse_gpu_lines ?m (lines_of three_lines) []
          = Inr (map (gpu_of_line ?m) (filter gpu_row (lines_of three_lines)))"
    by blast
  moreover have "map (\<lambda>g. (index g, name g, uuid g, fan_speed g))
                   (map (gpu_of_line ?m) (filter gpu_row (lines_of three_lines)))
      = [(0, ''TestGPU'', ''GPU-abc'', PyFloat ''30''), (2, ''Other'', ''unknown'', PyInt 0)]"
    by code_simp
  ultimately show "map_sum id (map (\<lambda>g. (index g, name g, uuid g, fan_speed g)))
     (parse_gpu_lines ?m (lines_of three_lines) [])
   = Inr [(0, ''TestGPU'', ''GPU-abc'', PyFloat ''30''), (2, ''Other'', ''unknown'', PyInt 0)]"
    by simp
  have b: "\<exists>line \<in> set (lines_of (three_lines @ [CHR 0x0A] @ fan_not_available)).
             gpu_row line \<and> \<not> numbers_convert (split_fields line)"
    by code_simp
  from stats_lines_parsed [of "three_lines @ [CHR 0x0A] @ fan_not_available" ?m] b
  show "parse_gpu_lines ?m (lines_of (three_lines @ [CHR 0x0A] @ fan_not_available)) []
          = Inl ValueError"
    by blast
qed

theorem stats_lines_parsed_counterexample:
  "length (split_fields twelve_fields) = 12
   \<and> parse_gpu_lines Map.empty (lines_of twelve_fields) [] = Inl ValueError
   \<and> length (split_fields fan_not_available) = 11
   \<and> parse_gpu_lines Map.empty (lines_of fan_not_available) [] = Inl ValueError"
  by code_simp

text \<open>
  C4, as the code has it. When the three outputs have only lines on which the loops
  do not raise (see the section on well-formed lines), parsing returns the GPUs in
  the order of the lines of the GPU table; the processes of a GPU are the process
  lines of four fields whose UUID field is the UUID of the GPU, in their order, when
  the GPU is the first with that UUID, and none otherwise; so a process line whose
  UUID is that of no GPU is dropped; and an empty process output gives no process
  and no failure. And when some process line of four fields has a pid or a memory
  that does not convert, parsing raises \<open>ValueError\<close>, whatever the UUID of the line
  and whatever the other two outputs.
\<close>

theorem processes_attached:
  "(list_all uuid_line_ok (lines_of gpu_uuid_output)
      \<and> list_all stats_line_ok (lines_of gpu_stats_output)
      \<and> list_all process_line_ok (lines_of process_output) \<longrightarrow>
      (\<exists>uuid_map gs.
           parse_uuid_lines (lines_of gpu_uuid_output) Map.empty = Inr uuid_map
         \<and> parse_gpus gpu_stats_output gpu_uuid_output process_output = Inr gs
         \<and> map (\<lambda>g. g\<lparr>processes := []\<rparr>) gs
             = map (gpu_of_line uuid_map) (filter gpu_row (lines_of gpu_stats_output))
         \<and> (\<forall>i<length gs.
               processes (gs ! i)
                 = (if \<forall>j<i. uuid (gs ! j) \<noteq> uuid (gs ! i)
                    then map process_of_line
                           (filter (process_row_for (uuid (gs ! i))) (lines_of process_output))
                    else []))
         \<and> (py_strip process_output = [] \<longrightarrow> (\<forall>g \<in> set gs. processes g = []))))
   \<and> ((\<exists>line \<in> set (lines_of process_output).
          length (split_fields line) = 4
          \<and> (py_int (split_fields line ! 0) = None \<or> py_float (split_fields line ! 3) = None)) \<longrightarrow>
        parse_gpus gpu_stats_output gpu_uuid_output process_output = Inl ValueError)"
proof (intro conjI impI)
  assume "\<exists>line \<in> set (lines_of process_output).
            length (split_fields line) = 4
            \<and> (py_int (split_fields line ! 0) = None \<or> py_float (split_fields line ! 3) = None)"
  then show "parse_gpus gpu_stats_output gpu_uuid_output process_output = Inl ValueError"
    using parse_gpus_bad_process by blast
next
  assume wf: "list_all uuid_line_ok (lines_of gpu_uuid_output)
      \<and> list_all stats_line_ok (lines_of gpu_stats_output)
      \<and> list_all process_line_ok (lines_of process_output)"
  then have wf1: "list_all uuid_line_ok (lines_of gpu_uuid_output)"
    and wf2: "list_all stats_line_ok (lines_of gpu_stats_output)"
    and wf3: "list_all process_line_ok (lines_of process_output)"
    by simp_all
  let ?rows = "filter gpu_row (lines_of gpu_stats_output)"
  from parse_uuid_lines_ok [OF wf1, of Map.empty] obtain m where
    m: "parse_uuid_lines (lines_of gpu_uuid_output) Map.empty = Inr m" by blast
  let ?gs0 = "map (gpu_of_line m) ?rows"
  have g0: "parse_gpu_lines m (lines_of gpu_stats_output) [] = Inr ?gs0"
    using parse_gpu_lines_ok [OF wf2, of m "[]"] by simp
  have none: "processes (gpu_of_line m l) = []" if "l \<in> set ?rows" for l
  proof -
    from that wf2 have "stats_line_ok l" and "gpu_row l" by (auto simp: list_all_iff)
    then have "length (split_fields l) = 11" and "numbers_convert (split_fields l)"
      by (auto simp: stats_line_ok_def gpu_row_def)
    from gpu_of_parts_ok [OF this, of m] show ?thesis
      by (auto simp: gpu_of_line_def)
  qed
  then have clear0: "map (\<lambda>g. g\<lparr>processes := []\<rparr>) ?gs0 = ?gs0"
    by (simp add: map_idI)
  have p0: "processes (?gs0 ! i) = []" if "i < length ?gs0" for i
  proof -
    from that have "i < length ?rows" by simp
    then have "?rows ! i \<in> set ?rows" by (rule nth_mem)
    from none [OF this] that show ?thesis by simp
  qed
  from parse_process_lines_ok [OF wf3, of ?gs0] obtain gs where
    r: "parse_process_lines (lines_of process_output) ?gs0 = Inr gs"
    and len: "length gs = length ?gs0"
    and uu: "map uuid gs = map uuid ?gs0"
    and cl: "map (\<lambda>g. g\<lparr>processes := []\<rparr>) gs = map (\<lambda>g. g\<lparr>processes := []\<rparr>) ?gs0"
    and pr: "\<forall>i<length ?gs0. processes (gs ! i)
            = processes (?gs0 ! i)
              @ (if \<forall>j<i. uuid (?gs0 ! j) \<noteq> uuid (?gs0 ! i)
                 then map process_of_line
                        (filter (process_row_for (uuid (?gs0 ! i))) (lines_of process_output))
                 else [])"
    by blast
  have u: "uuid (?gs0 ! j) = uuid (gs ! j)" if "j < length gs" for j
    using that uu len by (metis nth_map)
  have attached: "processes (gs ! i)
                 = (if \<forall>j<i. uuid (gs ! j) \<noteq> uuid (gs ! i)
                    then map process_of_line
                           (filter (process_row_for (uuid (gs ! i))) (lines_of process_output))
                    else [])" if i: "i < length gs" for i
  proof -
    from i len have i0: "i < length ?gs0" by simp
    have c: "uuid (?gs0 ! i) = uuid (gs ! i)" using u i by simp
    have b: "(\<forall>j<i. uuid (?gs0 ! j) \<noteq> uuid (gs ! i)) = (\<forall>j<i. uuid (gs ! j) \<noteq> uuid (gs ! i))"
      using u i by auto
    from pr i0 have "processes (gs ! i)
            = processes (?gs0 ! i)
              @ (if \<forall>j<i. uuid (?gs0 ! j) \<noteq> uuid (?gs0 ! i)
                 then map process_of_line
                        (filter (process_row_for (uuid (?gs0 ! i))) (lines_of process_output))
                 else [])" by blast
    then show ?thesis
      unfolding c b p0 [OF i0] by simp
  qed
  have empty: "\<forall>g \<in> set gs. processes g = []" if e: "py_strip process_output = []"
  proof
    fix g assume "g \<in> set gs"
    then obtain i where i: "i < length gs" and g: "g = gs ! i"
      by (auto simp: in_set_conv_nth)
    from e have "lines_of process_output = [[]]" by (simp add: lines_of_def)
    moreover have "\<not> process_row_for v []" for v
      by (simp add: process_row_for_def split_fields_def)
    ultimately show "processes g = []"
      using attached [OF i] g by simp
  qed
  have "parse_gpus gpu_stats_output gpu_uuid_output process_output = Inr gs"
    using m g0 r by (simp add: parse_gpus_def)
  with m cl clear0 attached empty show "\<exists>uuid_map gs.
           parse_uuid_lines (lines_of gpu_uuid_output) Map.empty = Inr uuid_map
         \<and> parse_gpus gpu_stats_output gpu_uuid_output process_output = Inr gs
         \<and> map (\<lambda>g. g\<lparr>processes := []\<rparr>) gs
             = map (gpu_of_line uuid_map) (filter gpu_row (lines_of gpu_stats_output))
         \<and> (\<forall>i<length gs.
               processes (gs ! i)
                 = (if \<forall>j<i. uuid (gs ! j) \<noteq> uuid (gs ! i)
                    then map process_of_line
                           (filter (process_row_for (uuid (gs ! i))) (lines_of process_output))
                    else []))
         \<and> (py_strip process_output = [] \<longrightarrow> (\<forall>g \<in> set gs. processes g = []))"
    by (intro exI [of _ m] exI [of _ gs]) simp
qed

theorem processes_attached_witness:
  "map_sum id (map (\<lambda>g. (index g, uuid g, map pid (processes g))))
     (parse_gpus three_lines ''0, GPU-abc'' five_processes)
   = Inr [(0, ''GPU-abc'', [123, 124]), (2, ''unknown'', [45])]
   \<and> map_sum id (map (\<lambda>g. (index g, uuid g, processes g)))
       (parse_gpus three_lines ''0, GPU-abc'' [])
     = Inr [(0, ''GPU-abc'', []), (2, ''unknown'', [])]
   \<and> parse_gpus three_lines ''0, GPU-abc'' orphan_not_available = Inl ValueError"
proof (intro conjI)
  have h1: "list_all uuid_line_ok (lines_of ''0, GPU-abc'')"
    and h2: "list_all stats_line_ok (lines_of three_lines)"
    and h3: "list_all process_line_ok (lines_of five_processes)"
    and h4: "list_all process_line_ok (lines_of [])"
    by code_simp+
  from processes_attached [of "''0, GPU-abc''" three_lines five_processes] h1 h2 h3
  obtain gs where
    "parse_gpus three_lines ''0, GPU-abc'' five_processes = Inr gs"
    by blast
  moreover have "map_sum id (map (\<lambda>g. (index g, uuid g, map pid (processes g))))
     (parse_gpus three_lines ''0, GPU-abc'' five_processes)
   = Inr [(0, ''GPU-abc'', [123, 124]), (2, ''unknown'', [45])]"
    by code_simp
  ultimately show "map_sum id (map (\<lambda>g. (index g, uuid g, map pid (processes g))))
     (parse_gpus three_lines ''0, GPU-abc'' five_processes)
   = Inr [(0, ''GPU-abc'', [123, 124]), (2, ''unknown'', [45])]"
    by simp
  have e: "py_strip [] = []"
    by (simp add: py_strip_def)
  from processes_attached [of "''0, GPU-abc''" three_lines "[]"] h1 h2 h4 e obtain gs' where
    r: "parse_gpus three_lines ''0, GPU-abc'' [] = Inr gs'"
    and n: "\<forall>g \<in> set gs'. processes g = []"
    by blast
  have "map_sum id (map (\<lambda>g. (index g, uuid g))) (parse_gpus three_lines ''0, GPU-abc'' [])
      = Inr [(0, ''GPU-abc''), (2, ''unknown'')]"
    by code_simp
  with r have "map (\<lambda>g. (index g, uuid g)) gs' = [(0, ''GPU-abc''), (2, ''unknown'')]"
    by simp
  moreover from n have "map (\<lambda>g. (index g, uuid g, processes g)) gs'
      = map (\<lambda>(i, u). (i, u, [])) (map (\<lambda>g. (index g, uuid g)) gs')"
    by simp
  ultimately show "map_sum id (map (\<lambda>g. (index g, uuid g, processes g)))
       (parse_gpus three_lines ''0, GPU-abc'' [])
     = Inr [(0, ''GPU-abc'', []), (2, ''unknown'', [])]"
    using r by simp
  have b: "\<exists>line \<in> set (lines_of orphan_not_available).
             length (split_fields line) = 4
             \<and> (py_int (split_fields line ! 0) = None \<or> py_float (split_fields line ! 3) = None)"
    by code_simp
  from processes_attached [of "''0, GPU-abc''" three_lines orphan_not_available] b
  show "parse_gpus three_lines ''0, GPU-abc'' orphan_not_available = Inl ValueError"
    by blast
qed

theorem processes_attached_counterexample:
  "length (split_fields five_fields) = 5
   \<and> parse_gpus ''0, TestGPU, 10, 5, 8000, 2000, 6000, 45, 20.5, 70, 30'' ''0, GPU-abc'' five_fields = Inl ValueError
   \<and> length (split_fields memory_not_available) = 4
   \<and> parse_gpus ''0, TestGPU, 10, 5, 8000, 2000, 6000, 45, 20.5, 70, 30'' ''0, GPU-abc'' memory_not_available = Inl ValueError"
  by code_simp

end
